theory Spec2Isabelle
  imports Complex_Main
begin

section \<open>Double pendulum: integrator, simulation actor and chaos map\<close>

text \<open>
  The embedding follows \<^verbatim>\<open>utils/physics\<close> (\<^verbatim>\<open>getDerivatives\<close>,
  \<^verbatim>\<open>integrateRK4Step\<close>, class \<^verbatim>\<open>PendulumSimulation\<close>) and the effect of
  \<^verbatim>\<open>VelocityChaosFractalVisualizer\<close> that paints the velocity chaos map.

  A JavaScript \<^verbatim>\<open>number\<close> is an IEEE 754 binary64 value. The arithmetic is
  embedded twice. In the first embedding a number is a real: rounding, overflow and the
  non-finite values are left out. It carries the statements on the control flow of the
  actor and of the chaos-map run (frames, resets, batches, progress), on the seeds and the
  score of a pixel, and on the rest state. The second
  embedding (section \<open>Binary64 arithmetic\<close>) has every operation rounded to nearest,
  with overflow to the infinities, gradual underflow and NaN; \<^verbatim>\<open>getDerivatives\<close>,
  \<^verbatim>\<open>integrateRK4Step\<close> and the colour mapping are embedded in it once more. The
  statements on the denominator of \<^verbatim>\<open>getDerivatives\<close>, on the zero time step and on
  the colour formulas depend on rounding and are made there.
\<close>

subsection \<open>Types (\<^verbatim>\<open>types.ts\<close>)\<close>

record PendulumState =
  theta1 :: real
  theta2 :: real
  omega1 :: real
  omega2 :: real

record PhysicsParams =
  l1 :: real
  l2 :: real
  m1 :: real
  m2 :: real
  g :: real

text \<open>The object returned by \<^verbatim>\<open>getDerivatives\<close>.\<close>

record Derivatives =
  dTheta1 :: real
  dTheta2 :: real
  dOmega1 :: real
  dOmega2 :: real

subsection \<open>Constants of \<^verbatim>\<open>utils/physics\<close>\<close>

definition DEFAULT_PARAMS :: PhysicsParams where
  "DEFAULT_PARAMS = \<lparr>l1 = 150, l2 = 150, m1 = 20, m2 = 20, g = 1\<rparr>"

definition INITIAL_STATE :: PendulumState where
  "INITIAL_STATE = \<lparr>theta1 = pi / 2, theta2 = pi / 2 + 1, omega1 = 0, omega2 = 0\<rparr>"

subsection \<open>\<^verbatim>\<open>getDerivatives\<close>\<close>

text \<open>
  The local constants of \<^verbatim>\<open>getDerivatives\<close>, each as a function of the two
  arguments, in the order and with the bracketing of the source.
\<close>

definition delta :: "PendulumState \<Rightarrow> real" where
  "delta st = theta1 st - theta2 st"

definition den1 :: "PendulumState \<Rightarrow> PhysicsParams \<Rightarrow> real" where
  "den1 st ps = 2 * m1 ps + m2 ps - m2 ps * cos (2 * theta1 st - 2 * theta2 st)"

definition num1 :: "PendulumState \<Rightarrow> PhysicsParams \<Rightarrow> real" where
  "num1 st ps =
     - g ps * (2 * m1 ps + m2 ps) * sin (theta1 st)
     - m2 ps * g ps * sin (theta1 st - 2 * theta2 st)
     - 2 * sin (delta st) * m2 ps *
         (omega2 st * omega2 st * l2 ps + omega1 st * omega1 st * l1 ps * cos (delta st))"

definition alpha1 :: "PendulumState \<Rightarrow> PhysicsParams \<Rightarrow> real" where
  "alpha1 st ps = num1 st ps / (l1 ps * den1 st ps)"

definition num2 :: "PendulumState \<Rightarrow> PhysicsParams \<Rightarrow> real" where
  "num2 st ps =
     2 * sin (delta st) *
       (omega1 st * omega1 st * l1 ps * (m1 ps + m2 ps)
        + g ps * (m1 ps + m2 ps) * cos (theta1 st)
        + omega2 st * omega2 st * l2 ps * m2 ps * cos (delta st))"

definition den2 :: "PendulumState \<Rightarrow> PhysicsParams \<Rightarrow> real" where
  "den2 st ps = 2 * m1 ps + m2 ps - m2 ps * cos (2 * theta1 st - 2 * theta2 st)"

definition alpha2 :: "PendulumState \<Rightarrow> PhysicsParams \<Rightarrow> real" where
  "alpha2 st ps = num2 st ps / (l2 ps * den2 st ps)"

definition getDerivatives :: "PendulumState \<Rightarrow> PhysicsParams \<Rightarrow> Derivatives" where
  "getDerivatives st ps =
     \<lparr>dTheta1 = omega1 st, dTheta2 = omega2 st,
      dOmega1 = alpha1 st ps, dOmega2 = alpha2 st ps\<rparr>"

subsection \<open>\<^verbatim>\<open>integrateRK4Step\<close>\<close>

definition integrateRK4Step :: "PendulumState \<Rightarrow> PhysicsParams \<Rightarrow> real \<Rightarrow> PendulumState" where
  "integrateRK4Step st ps dt =
     (let k1 = getDerivatives st ps;
          s2 = \<lparr>theta1 = theta1 st + dTheta1 k1 * dt * 0.5,
                theta2 = theta2 st + dTheta2 k1 * dt * 0.5,
                omega1 = omega1 st + dOmega1 k1 * dt * 0.5,
                omega2 = omega2 st + dOmega2 k1 * dt * 0.5\<rparr>;
          k2 = getDerivatives s2 ps;
          s3 = \<lparr>theta1 = theta1 st + dTheta1 k2 * dt * 0.5,
                theta2 = theta2 st + dTheta2 k2 * dt * 0.5,
                omega1 = omega1 st + dOmega1 k2 * dt * 0.5,
                omega2 = omega2 st + dOmega2 k2 * dt * 0.5\<rparr>;
          k3 = getDerivatives s3 ps;
          s4 = \<lparr>theta1 = theta1 st + dTheta1 k3 * dt,
                theta2 = theta2 st + dTheta2 k3 * dt,
                omega1 = omega1 st + dOmega1 k3 * dt,
                omega2 = omega2 st + dOmega2 k3 * dt\<rparr>;
          k4 = getDerivatives s4 ps
      in \<lparr>theta1 = theta1 st + (dt / 6) * (dTheta1 k1 + 2 * dTheta1 k2 + 2 * dTheta1 k3 + dTheta1 k4),
          theta2 = theta2 st + (dt / 6) * (dTheta2 k1 + 2 * dTheta2 k2 + 2 * dTheta2 k3 + dTheta2 k4),
          omega1 = omega1 st + (dt / 6) * (dOmega1 k1 + 2 * dOmega1 k2 + 2 * dOmega1 k3 + dOmega1 k4),
          omega2 = omega2 st + (dt / 6) * (dOmega2 k1 + 2 * dOmega2 k2 + 2 * dOmega2 k3 + dOmega2 k4)\<rparr>)"

section \<open>The simulation actor (class \<^verbatim>\<open>PendulumSimulation\<close>)\<close>

text \<open>
  A callback is known to the actor only by its identity (the \<^verbatim>\<open>Set\<close>s compare
  references), so a callback is a number and a \<^verbatim>\<open>Set\<close> of callbacks is the list of
  its elements in insertion order, which is the order of \<^verbatim>\<open>forEach\<close>. What a method
  does to the outside is returned as a list of effects, in program order: the calls of
  subscribers and reset listeners with their argument, and the calls of
  \<^verbatim>\<open>requestAnimationFrame\<close> and \<^verbatim>\<open>cancelAnimationFrame\<close>. Callbacks are
  taken not to call back into the actor. The handle that \<^verbatim>\<open>requestAnimationFrame\<close>
  returns is chosen by the host; it is an argument of every method that reaches that call.
  The writing to the console in \<^verbatim>\<open>multiplySpeed\<close> is left out.
\<close>

type_synonym callback = nat

datatype effect =
    Notified callback "PendulumState list"
  | ResetNotified callback
  | RequestedAnimationFrame nat
  | CancelledAnimationFrame nat

record PendulumSimulation =
  state :: PendulumState
  initialState :: PendulumState
  params :: PhysicsParams
  subscribers :: "callback list"
  resetListeners :: "callback list"
  animationFrameId :: "nat option"
  isRunning :: bool
  speedMultiplier :: real

text \<open>The private field \<^verbatim>\<open>baseStepsPerFrame\<close> is initialised to 40 and never assigned.\<close>

definition baseStepsPerFrame :: real where
  "baseStepsPerFrame = 40"

definition constructor :: "PendulumState \<Rightarrow> PhysicsParams \<Rightarrow> PendulumSimulation" where
  "constructor initial ps =
     \<lparr>state = initial, initialState = initial, params = ps,
      subscribers = [], resetListeners = [],
      animationFrameId = None, isRunning = False, speedMultiplier = 1\<rparr>"

text \<open>\<^verbatim>\<open>new PendulumSimulation()\<close>: both arguments take their defaults.\<close>

definition newPendulumSimulation :: PendulumSimulation where
  "newPendulumSimulation = constructor INITIAL_STATE DEFAULT_PARAMS"

text \<open>\<^verbatim>\<open>Set.add\<close> and \<^verbatim>\<open>Set.delete\<close>.\<close>

definition set_add :: "callback \<Rightarrow> callback list \<Rightarrow> callback list" where
  "set_add cb cbs = (if cb \<in> set cbs then cbs else cbs @ [cb])"

definition set_delete :: "callback \<Rightarrow> callback list \<Rightarrow> callback list" where
  "set_delete cb cbs = filter (\<lambda>c. c \<noteq> cb) cbs"

definition subscribe :: "callback \<Rightarrow> PendulumSimulation \<Rightarrow> PendulumSimulation" where
  "subscribe cb sim = sim\<lparr>subscribers := set_add cb (subscribers sim)\<rparr>"

text \<open>The function that \<^verbatim>\<open>subscribe\<close> returns.\<close>

definition unsubscribe :: "callback \<Rightarrow> PendulumSimulation \<Rightarrow> PendulumSimulation" where
  "unsubscribe cb sim = sim\<lparr>subscribers := set_delete cb (subscribers sim)\<rparr>"

definition addResetListener :: "callback \<Rightarrow> PendulumSimulation \<Rightarrow> PendulumSimulation" where
  "addResetListener cb sim = sim\<lparr>resetListeners := set_add cb (resetListeners sim)\<rparr>"

definition removeResetListener :: "callback \<Rightarrow> PendulumSimulation \<Rightarrow> PendulumSimulation" where
  "removeResetListener cb sim = sim\<lparr>resetListeners := set_delete cb (resetListeners sim)\<rparr>"

definition multiplySpeed :: "real \<Rightarrow> PendulumSimulation \<Rightarrow> PendulumSimulation" where
  "multiplySpeed factor sim = sim\<lparr>speedMultiplier := speedMultiplier sim * factor\<rparr>"

definition getState :: "PendulumSimulation \<Rightarrow> PendulumState" where
  "getState sim = state sim"

definition getInitialState :: "PendulumSimulation \<Rightarrow> PendulumState" where
  "getInitialState sim = initialState sim"

definition notify :: "PendulumSimulation \<Rightarrow> PendulumState list \<Rightarrow> effect list" where
  "notify sim history = map (\<lambda>cb. Notified cb history) (subscribers sim)"

text \<open>\<^verbatim>\<open>Math.round\<close>: the nearest integer, a tie going up.\<close>

definition Math_round :: "real \<Rightarrow> int" where
  "Math_round x = \<lfloor>x + 1 / 2\<rfloor>"

text \<open>
  The \<^verbatim>\<open>for\<close> loop of \<^verbatim>\<open>loop\<close>: from the counter \<open>i\<close>, with the live state and
  the history built so far; it returns both.
\<close>

function forSteps ::
  "int \<Rightarrow> int \<Rightarrow> PhysicsParams \<Rightarrow> real \<Rightarrow> PendulumState \<Rightarrow> PendulumState list
     \<Rightarrow> PendulumState \<times> PendulumState list" where
  "forSteps i steps ps dt st history =
     (if i < steps
      then (let st' = integrateRK4Step st ps dt
            in forSteps (i + 1) steps ps dt st' (history @ [st']))
      else (st, history))"
  by pat_completeness auto
termination
  by (relation "measure (\<lambda>(i, steps, ps, dt, st, history). nat (steps - i))") auto

declare forSteps.simps [simp del]

text \<open>The local constant \<^verbatim>\<open>steps\<close> of \<^verbatim>\<open>loop\<close>.\<close>

definition frameSteps :: "PendulumSimulation \<Rightarrow> int" where
  "frameSteps sim = max 1 (Math_round (baseStepsPerFrame * speedMultiplier sim))"

definition loop :: "nat \<Rightarrow> PendulumSimulation \<Rightarrow> PendulumSimulation \<times> effect list" where
  "loop handle sim =
     (if \<not> isRunning sim then (sim, [])
      else
        (let dt = 0.01;
             steps = frameSteps sim;
             (st, history) = forSteps 0 steps (params sim) dt (state sim) [state sim]
         in (sim\<lparr>state := st, animationFrameId := Some handle\<rparr>,
             notify sim history @ [RequestedAnimationFrame handle])))"

definition start :: "nat \<Rightarrow> PendulumSimulation \<Rightarrow> PendulumSimulation \<times> effect list" where
  "start handle sim =
     (if isRunning sim then (sim, [])
      else loop handle (sim\<lparr>isRunning := True\<rparr>))"

definition stop :: "PendulumSimulation \<Rightarrow> PendulumSimulation \<times> effect list" where
  "stop sim =
     (case animationFrameId sim of
        Some h \<Rightarrow> (sim\<lparr>isRunning := False, animationFrameId := None\<rparr>, [CancelledAnimationFrame h])
      | None \<Rightarrow> (sim\<lparr>isRunning := False\<rparr>, []))"

text \<open>
  \<^verbatim>\<open>reset\<close>. An omitted argument (\<^verbatim>\<open>undefined\<close>) is \<open>None\<close>. The two values
  \<open>u1\<close> and \<open>u2\<close> are what the two calls of \<^verbatim>\<open>Math.random()\<close> return, in the order
  of the calls; they are read in the branch without arguments only.
\<close>

definition reset ::
  "real option \<Rightarrow> real option \<Rightarrow> real option \<Rightarrow> real option \<Rightarrow> real \<Rightarrow> real \<Rightarrow> nat
     \<Rightarrow> PendulumSimulation \<Rightarrow> PendulumSimulation \<times> effect list" where
  "reset t1 t2 w1 w2 u1 u2 handle sim =
     (let (sim1, stopped) = stop sim;
          nextTheta1 = (case t1 of Some v \<Rightarrow> v | None \<Rightarrow> theta1 (initialState sim1));
          nextTheta2 = (case t2 of Some v \<Rightarrow> v | None \<Rightarrow> theta2 (initialState sim1));
          nextOmega1 = (case w1 of Some v \<Rightarrow> v | None \<Rightarrow> omega1 (initialState sim1));
          nextOmega2 = (case w2 of Some v \<Rightarrow> v | None \<Rightarrow> omega2 (initialState sim1));
          sim2 =
            (if t1 = None \<and> t2 = None \<and> w1 = None \<and> w2 = None
             then sim1\<lparr>state :=
                    \<lparr>theta1 = pi / 2 + (u1 * 0.5 - 0.25),
                     theta2 = pi / 2 + 1 + (u2 * 0.5 - 0.25),
                     omega1 = 0,
                     omega2 = 0\<rparr>\<rparr>
             else sim1\<lparr>state :=
                    \<lparr>theta1 = nextTheta1,
                     theta2 = nextTheta2,
                     omega1 = nextOmega1,
                     omega2 = nextOmega2\<rparr>\<rparr>);
          sim3 = sim2\<lparr>initialState := state sim2\<rparr>;
          listened = map ResetNotified (resetListeners sim3);
          notified = notify sim3 [state sim3];
          (sim4, started) = start handle sim3
      in (sim4, stopped @ listened @ notified @ started))"

section \<open>The velocity chaos map (effect of \<^verbatim>\<open>VelocityChaosFractalVisualizer\<close>)\<close>

definition FRACTAL_PARAMS :: PhysicsParams where
  "FRACTAL_PARAMS = \<lparr>l1 = 1.0, l2 = 1.0, m1 = 1.0, m2 = 1.0, g = 9.81\<rparr>"

subsection \<open>Constants of the component\<close>

text \<open>
  The module constants \<^verbatim>\<open>RESOLUTION\<close>, \<^verbatim>\<open>SIM_STEPS\<close>, \<^verbatim>\<open>DT\<close> and
  \<^verbatim>\<open>EPSILON\<close> are gathered in a record that the functions of a pixel and of a batch
  take as an argument, so that the statements on them hold for every resolution and step
  count; \<open>config\<close> holds the values of the source. The effect itself takes no
  configuration.
\<close>

record FractalConfig =
  RESOLUTION :: int
  SIM_STEPS :: int
  DT :: real
  EPSILON :: real

definition config :: FractalConfig where
  "config = \<lparr>RESOLUTION = 250, SIM_STEPS = 3000, DT = 0.01, EPSILON = 0.001\<rparr>"

text \<open>The object \<^verbatim>\<open>BOUNDS\<close>.\<close>

definition BOUNDS_minOmega :: real where "BOUNDS_minOmega = - 10"
definition BOUNDS_maxOmega :: real where "BOUNDS_maxOmega = 10"
definition BOUNDS_range :: real where "BOUNDS_range = 20"

definition MAX_TIME_PER_FRAME :: real where "MAX_TIME_PER_FRAME = 12"

definition totalPixels :: "FractalConfig \<Rightarrow> int" where
  "totalPixels cfg = RESOLUTION cfg * RESOLUTION cfg"

subsection \<open>One pixel\<close>

text \<open>The inner \<^verbatim>\<open>for\<close> loop: from the counter \<open>i\<close>, it returns \<^verbatim>\<open>totalDiff\<close>.\<close>

function forSimSteps ::
  "int \<Rightarrow> FractalConfig \<Rightarrow> PendulumState \<Rightarrow> PendulumState \<Rightarrow> real \<Rightarrow> real" where
  "forSimSteps i cfg s1 s2 totalDiff =
     (if i < SIM_STEPS cfg
      then (let s1' = integrateRK4Step s1 FRACTAL_PARAMS (DT cfg);
                s2' = integrateRK4Step s2 FRACTAL_PARAMS (DT cfg);
                dTheta1 = theta1 s1' - theta1 s2';
                dTheta2 = theta2 s1' - theta2 s2';
                dOmega1 = omega1 s1' - omega1 s2';
                dOmega2 = omega2 s1' - omega2 s2';
                dist = sqrt (dTheta1 * dTheta1 + dTheta2 * dTheta2
                             + dOmega1 * dOmega1 + dOmega2 * dOmega2);
                dist = min dist 2.0
            in forSimSteps (i + 1) cfg s1' s2' (totalDiff + dist))
      else totalDiff)"
  by pat_completeness auto
termination
  by (relation "measure (\<lambda>(i, cfg, s1, s2, totalDiff). nat (SIM_STEPS cfg - i))") auto

declare forSimSteps.simps [simp del]

text \<open>
  The column and the row of a pixel, and the two start states. For a pixel index that is
  not negative and a positive resolution, the remainder \<^verbatim>\<open>%\<close> of JavaScript is
  \<open>mod\<close>.
\<close>

definition pixelX :: "FractalConfig \<Rightarrow> int \<Rightarrow> int" where
  "pixelX cfg pixelIndex = pixelIndex mod RESOLUTION cfg"

definition pixelY :: "FractalConfig \<Rightarrow> int \<Rightarrow> int" where
  "pixelY cfg pixelIndex = \<lfloor>of_int pixelIndex / (of_int (RESOLUTION cfg) :: real)\<rfloor>"

definition startOmega1 :: "FractalConfig \<Rightarrow> int \<Rightarrow> real" where
  "startOmega1 cfg pixelIndex =
     BOUNDS_minOmega + (of_int (pixelX cfg pixelIndex) / of_int (RESOLUTION cfg)) * BOUNDS_range"

definition startOmega2 :: "FractalConfig \<Rightarrow> int \<Rightarrow> real" where
  "startOmega2 cfg pixelIndex =
     BOUNDS_minOmega + (of_int (pixelY cfg pixelIndex) / of_int (RESOLUTION cfg)) * BOUNDS_range"

definition startS1 :: "FractalConfig \<Rightarrow> int \<Rightarrow> PendulumState" where
  "startS1 cfg pixelIndex =
     \<lparr>theta1 = 0, theta2 = 0,
      omega1 = startOmega1 cfg pixelIndex, omega2 = startOmega2 cfg pixelIndex\<rparr>"

definition startS2 :: "FractalConfig \<Rightarrow> int \<Rightarrow> PendulumState" where
  "startS2 cfg pixelIndex =
     \<lparr>theta1 = 0, theta2 = 0,
      omega1 = startOmega1 cfg pixelIndex + EPSILON cfg,
      omega2 = startOmega2 cfg pixelIndex + EPSILON cfg\<rparr>"

definition avgDist :: "FractalConfig \<Rightarrow> int \<Rightarrow> real" where
  "avgDist cfg pixelIndex =
     forSimSteps 0 cfg (startS1 cfg pixelIndex) (startS2 cfg pixelIndex) 0 / of_int (SIM_STEPS cfg)"

text \<open>\<^verbatim>\<open>Math.pow\<close> with a base that is not negative is \<open>powr\<close>.\<close>

definition normalized :: "FractalConfig \<Rightarrow> int \<Rightarrow> real" where
  "normalized cfg pixelIndex = min 1 ((avgDist cfg pixelIndex / 1.5) powr 0.4)"

text \<open>The five branches of the colour mapping, each giving \<open>(r, g, b)\<close>.\<close>

definition segment1 :: "real \<Rightarrow> int \<times> int \<times> int" where
  "segment1 intensity = (let t = intensity / 0.2 in (0, 0, \<lfloor>t * 160\<rfloor>))"

definition segment2 :: "real \<Rightarrow> int \<times> int \<times> int" where
  "segment2 intensity = (let t = (intensity - 0.2) / 0.2 in (\<lfloor>t * 100\<rfloor>, 0, 160 + \<lfloor>t * 95\<rfloor>))"

definition segment3 :: "real \<Rightarrow> int \<times> int \<times> int" where
  "segment3 intensity =
     (let t = (intensity - 0.4) / 0.2 in (100 + \<lfloor>t * 155\<rfloor>, 0, 255 - \<lfloor>t * 255\<rfloor>))"

definition segment4 :: "real \<Rightarrow> int \<times> int \<times> int" where
  "segment4 intensity = (let t = (intensity - 0.6) / 0.2 in (255, \<lfloor>t * 200\<rfloor>, 0))"

definition segment5 :: "real \<Rightarrow> int \<times> int \<times> int" where
  "segment5 intensity =
     (let t = (intensity - 0.8) / 0.2 in (255, 200 + \<lfloor>t * 55\<rfloor>, \<lfloor>t * 255\<rfloor>))"

definition color :: "real \<Rightarrow> int \<times> int \<times> int" where
  "color intensity =
     (if intensity < 0.2 then segment1 intensity
      else if intensity < 0.4 then segment2 intensity
      else if intensity < 0.6 then segment3 intensity
      else if intensity < 0.8 then segment4 intensity
      else segment5 intensity)"

text \<open>
  The pixel buffer \<^verbatim>\<open>imageData.data\<close> is a \<^verbatim>\<open>Uint8ClampedArray\<close>: a store of an
  integer clamps it to 0..255.
\<close>

definition toUint8Clamped :: "int \<Rightarrow> int" where
  "toUint8Clamped v = max 0 (min 255 v)"

record Generator =
  data :: "int \<Rightarrow> int"
  pixelIndex :: int
  isCancelled :: bool

text \<open>The body of the \<^verbatim>\<open>while\<close> loop.\<close>

definition paintPixel :: "FractalConfig \<Rightarrow> Generator \<Rightarrow> Generator" where
  "paintPixel cfg gen =
     (let intensity = normalized cfg (pixelIndex gen);
          idx = pixelIndex gen * 4;
          (r, g, b) = color intensity
      in gen\<lparr>data := (data gen)
                (idx := toUint8Clamped r, idx + 1 := toUint8Clamped g,
                 idx + 2 := toUint8Clamped b, idx + 3 := toUint8Clamped 255),
             pixelIndex := pixelIndex gen + 1\<rparr>)"

text \<open>
  The \<^verbatim>\<open>while\<close> loop of a batch. \<open>now k\<close> is what the \<open>k\<close>-th call of
  \<^verbatim>\<open>performance.now()\<close> in the batch returns; the first call gives \<open>startTime\<close>.
\<close>

function whileBudget ::
  "FractalConfig \<Rightarrow> (nat \<Rightarrow> real) \<Rightarrow> real \<Rightarrow> nat \<Rightarrow> Generator \<Rightarrow> Generator" where
  "whileBudget cfg now startTime k gen =
     (if pixelIndex gen < totalPixels cfg \<and> now k - startTime < MAX_TIME_PER_FRAME
      then whileBudget cfg now startTime (Suc k) (paintPixel cfg gen)
      else gen)"
  by pat_completeness auto
termination
  by (relation "measure (\<lambda>(cfg, now, startTime, k, gen). nat (totalPixels cfg - pixelIndex gen))")
    (auto simp: paintPixel_def Let_def case_prod_beta)

declare whileBudget.simps [simp del]

datatype display =
    PutImageData
  | SetIsProcessing bool
  | SetProgress int
  | RenderDisplay
  | RequestedBatch
  | CancelledBatch

definition processBatch ::
  "FractalConfig \<Rightarrow> (nat \<Rightarrow> real) \<Rightarrow> Generator \<Rightarrow> Generator \<times> display list" where
  "processBatch cfg now gen =
     (if isCancelled gen then (gen, [])
      else if pixelIndex gen \<ge> totalPixels cfg
      then (gen, [PutImageData, SetIsProcessing False, RenderDisplay])
      else
        (let startTime = now 0;
             gen' = whileBudget cfg now startTime 1 gen
         in (gen',
             [PutImageData,
              SetProgress (Math_round ((of_int (pixelIndex gen') / of_int (totalPixels cfg)) * 100)),
              RenderDisplay, RequestedBatch])))"

text \<open>
  The effect up to its first \<^verbatim>\<open>requestAnimationFrame\<close>. The canvas is not modelled
  beyond the pixel buffer, which \<^verbatim>\<open>fillRect\<close> has made opaque black; the effect returns
  early without a drawing context (\<open>hasContext\<close> tells whether \<^verbatim>\<open>getContext\<close> has
  given one). The effect has no parameter and no statement that throws.
\<close>

definition initialGenerator :: Generator where
  "initialGenerator =
     \<lparr>data = (\<lambda>i. if i mod 4 = 3 then 255 else 0), pixelIndex = 0, isCancelled = False\<rparr>"

definition useEffect :: "bool \<Rightarrow> (Generator \<times> display list) option" where
  "useEffect hasContext =
     (if \<not> hasContext then None
      else Some (initialGenerator, [SetIsProcessing True, SetProgress 0, RequestedBatch]))"

text \<open>The function that the effect returns.\<close>

definition cleanup :: "Generator \<Rightarrow> Generator \<times> display list" where
  "cleanup gen = (gen\<lparr>isCancelled := True\<rparr>, [CancelledBatch])"

text \<open>
  The batches of a run, one clock for each callback of the host. The host calls
  \<^verbatim>\<open>processBatch\<close> again only if the batch before has requested it.
\<close>

fun runBatches ::
  "FractalConfig \<Rightarrow> (nat \<Rightarrow> real) list \<Rightarrow> Generator \<Rightarrow> Generator \<times> display list" where
  "runBatches cfg [] gen = (gen, [])"
| "runBatches cfg (now # clocks) gen =
     (let (gen', shown) = processBatch cfg now gen
      in if RequestedBatch \<in> set shown
         then (let (gen'', shown') = runBatches cfg clocks gen' in (gen'', shown @ shown'))
         else (gen', shown))"

text \<open>The progress values among what a run has shown, in order.\<close>

fun published :: "display list \<Rightarrow> int list" where
  "published [] = []"
| "published (SetProgress p # shown) = p # published shown"
| "published (_ # shown) = published shown"

section \<open>Binary64 arithmetic\<close>

text \<open>
  A JavaScript \<^verbatim>\<open>number\<close> as the engine has it: a finite double, one of the two
  infinities, or NaN. A finite value is carried as the real that it denotes; the values
  that occur are those for which \<open>is_double\<close> holds (a multiple of the unit in the last
  place of its binade, with a 53-bit significand, subnormals included). The two zeros
  are not told apart: they differ only in the sign of a quotient by zero, which is taken
  here as for \<open>+0\<close>.
\<close>

datatype number = Fin real | PInf | NInf | NaN

text \<open>
  The exponent of the unit in the last place of \<open>x\<close>: 52 below the exponent of \<open>x\<close>,
  and not below \<open>-1074\<close>, the exponent of the least subnormal.
\<close>

definition ulp_exp :: "real \<Rightarrow> int" where
  "ulp_exp x = max (- 1074) (\<lfloor>log 2 \<bar>x\<bar>\<rfloor> - 52)"

text \<open>The nearest integer, a tie going to the even one.\<close>

definition round_half_even :: "real \<Rightarrow> int" where
  "round_half_even q =
     (let f = \<lfloor>q\<rfloor>; r = q - of_int f
      in if r < 1 / 2 then f else if 1 / 2 < r then f + 1 else if even f then f else f + 1)"

text \<open>
  Rounding to nearest, ties to even: the multiple of the unit in the last place that is
  nearest to \<open>x\<close>; a result of magnitude \<open>2^1024\<close> or more overflows to an infinity.
  Every arithmetic operation returns the exact result rounded in this way.
\<close>

definition rounded :: "real \<Rightarrow> real" where
  "rounded x = (let u = 2 powi (ulp_exp x) in of_int (round_half_even (x / u)) * u)"

definition rnd :: "real \<Rightarrow> number" where
  "rnd x =
     (if x = 0 then Fin 0
      else (let y = rounded x
            in if 2 ^ 1024 \<le> \<bar>y\<bar> then (if 0 < x then PInf else NInf) else Fin y))"

definition is_double :: "real \<Rightarrow> bool" where
  "is_double x \<longleftrightarrow>
     x = 0 \<or> (\<bar>x\<bar> < 2 ^ 1024 \<and> of_int \<lfloor>x / 2 powi ulp_exp x\<rfloor> = x / 2 powi ulp_exp x)"

subsection \<open>The operators\<close>

text \<open>
  Unary minus, \<^verbatim>\<open>+\<close>, \<^verbatim>\<open>*\<close>, \<^verbatim>\<open>/\<close> and \<^verbatim>\<open><\<close>. NaN is contagious; the sum of opposite
  infinities, the product of an infinity and zero, and the quotients of two infinities
  and of two zeros are NaN; a comparison with NaN is false. \<^verbatim>\<open>a - b\<close> is \<open>a + (- b)\<close>.
\<close>

fun fneg :: "number \<Rightarrow> number" where
  "fneg (Fin x) = Fin (- x)"
| "fneg PInf = NInf"
| "fneg NInf = PInf"
| "fneg NaN = NaN"

fun fadd :: "number \<Rightarrow> number \<Rightarrow> number" where
  "fadd NaN b = NaN"
| "fadd a NaN = NaN"
| "fadd PInf NInf = NaN"
| "fadd NInf PInf = NaN"
| "fadd PInf b = PInf"
| "fadd NInf b = NInf"
| "fadd a PInf = PInf"
| "fadd a NInf = NInf"
| "fadd (Fin x) (Fin y) = rnd (x + y)"

fun fmul :: "number \<Rightarrow> number \<Rightarrow> number" where
  "fmul NaN b = NaN"
| "fmul a NaN = NaN"
| "fmul PInf PInf = PInf"
| "fmul PInf NInf = NInf"
| "fmul NInf PInf = NInf"
| "fmul NInf NInf = PInf"
| "fmul PInf (Fin y) = (if y = 0 then NaN else if 0 < y then PInf else NInf)"
| "fmul NInf (Fin y) = (if y = 0 then NaN else if 0 < y then NInf else PInf)"
| "fmul (Fin x) PInf = (if x = 0 then NaN else if 0 < x then PInf else NInf)"
| "fmul (Fin x) NInf = (if x = 0 then NaN else if 0 < x then NInf else PInf)"
| "fmul (Fin x) (Fin y) = rnd (x * y)"

fun fdiv :: "number \<Rightarrow> number \<Rightarrow> number" where
  "fdiv NaN b = NaN"
| "fdiv a NaN = NaN"
| "fdiv PInf PInf = NaN"
| "fdiv PInf NInf = NaN"
| "fdiv NInf PInf = NaN"
| "fdiv NInf NInf = NaN"
| "fdiv PInf (Fin y) = (if 0 \<le> y then PInf else NInf)"
| "fdiv NInf (Fin y) = (if 0 \<le> y then NInf else PInf)"
| "fdiv (Fin x) PInf = Fin 0"
| "fdiv (Fin x) NInf = Fin 0"
| "fdiv (Fin x) (Fin y) =
     (if y = 0 then (if x = 0 then NaN else if 0 < x then PInf else NInf)
      else rnd (x / y))"

fun fless :: "number \<Rightarrow> number \<Rightarrow> bool" where
  "fless NaN b = False"
| "fless a NaN = False"
| "fless PInf b = False"
| "fless a NInf = False"
| "fless NInf b = True"
| "fless a PInf = True"
| "fless (Fin x) (Fin y) = (x < y)"

text \<open>
  The operator symbols on \<open>number\<close>, so that an expression of the source is written as
  it stands: the operators associate to the left and unary minus binds tighter than
  \<open>*\<close>, as in JavaScript. None of the laws of a ring is assumed of them.
\<close>

instantiation number :: "{plus, minus, uminus, times, inverse, ord}"
begin

definition plus_number :: "number \<Rightarrow> number \<Rightarrow> number" where
  "plus_number a b = fadd a b"

definition uminus_number :: "number \<Rightarrow> number" where
  "uminus_number a = fneg a"

definition minus_number :: "number \<Rightarrow> number \<Rightarrow> number" where
  "minus_number a b = fadd a (fneg b)"

definition times_number :: "number \<Rightarrow> number \<Rightarrow> number" where
  "times_number a b = fmul a b"

definition divide_number :: "number \<Rightarrow> number \<Rightarrow> number" where
  "divide_number a b = fdiv a b"

definition inverse_number :: "number \<Rightarrow> number" where
  "inverse_number a = fdiv (Fin 1) a"

definition less_number :: "number \<Rightarrow> number \<Rightarrow> bool" where
  "less_number a b = fless a b"

definition less_eq_number :: "number \<Rightarrow> number \<Rightarrow> bool" where
  "less_eq_number a b \<longleftrightarrow> fless a b \<or> (a = b \<and> a \<noteq> NaN)"

instance ..

end

subsection \<open>Functions of \<^verbatim>\<open>Math\<close>\<close>

text \<open>
  \<^verbatim>\<open>Math.sin\<close> and \<^verbatim>\<open>Math.cos\<close> are taken as the rounded value of the sine and the
  cosine (the language leaves their last bits to the engine); at 0 they are exactly 0
  and 1, and they are NaN at an infinity. \<^verbatim>\<open>Math.floor\<close> is exact.
\<close>

fun Math_sin :: "number \<Rightarrow> number" where
  "Math_sin (Fin x) = rnd (sin x)"
| "Math_sin PInf = NaN"
| "Math_sin NInf = NaN"
| "Math_sin NaN = NaN"

fun Math_cos :: "number \<Rightarrow> number" where
  "Math_cos (Fin x) = rnd (cos x)"
| "Math_cos PInf = NaN"
| "Math_cos NInf = NaN"
| "Math_cos NaN = NaN"

fun Math_floor :: "number \<Rightarrow> number" where
  "Math_floor (Fin x) = Fin (of_int \<lfloor>x\<rfloor>)"
| "Math_floor PInf = PInf"
| "Math_floor NInf = NInf"
| "Math_floor NaN = NaN"

subsection \<open>The integrator in binary64\<close>

text \<open>
  The types of \<^verbatim>\<open>types.ts\<close>, \<^verbatim>\<open>DEFAULT_PARAMS\<close>, \<^verbatim>\<open>getDerivatives\<close> and
  \<^verbatim>\<open>integrateRK4Step\<close> once more, with every field a \<open>number\<close> and every operation
  rounded; the names carry the suffix \<open>_f\<close>. An integer literal and the literal
  \<^verbatim>\<open>0.5\<close> are doubles and stand as \<open>Fin\<close> of their value.
\<close>

record PendulumState_f =
  theta1_f :: number
  theta2_f :: number
  omega1_f :: number
  omega2_f :: number

record PhysicsParams_f =
  l1_f :: number
  l2_f :: number
  m1_f :: number
  m2_f :: number
  g_f :: number

record Derivatives_f =
  dTheta1_f :: number
  dTheta2_f :: number
  dOmega1_f :: number
  dOmega2_f :: number

definition DEFAULT_PARAMS_f :: PhysicsParams_f where
  "DEFAULT_PARAMS_f = \<lparr>l1_f = Fin 150, l2_f = Fin 150, m1_f = Fin 20, m2_f = Fin 20, g_f = Fin 1\<rparr>"

definition delta_f :: "PendulumState_f \<Rightarrow> number" where
  "delta_f st = theta1_f st - theta2_f st"

definition den1_f :: "PendulumState_f \<Rightarrow> PhysicsParams_f \<Rightarrow> number" where
  "den1_f st ps =
     Fin 2 * m1_f ps + m2_f ps - m2_f ps * Math_cos (Fin 2 * theta1_f st - Fin 2 * theta2_f st)"

definition num1_f :: "PendulumState_f \<Rightarrow> PhysicsParams_f \<Rightarrow> number" where
  "num1_f st ps =
     - g_f ps * (Fin 2 * m1_f ps + m2_f ps) * Math_sin (theta1_f st)
     - m2_f ps * g_f ps * Math_sin (theta1_f st - Fin 2 * theta2_f st)
     - Fin 2 * Math_sin (delta_f st) * m2_f ps *
         (omega2_f st * omega2_f st * l2_f ps
          + omega1_f st * omega1_f st * l1_f ps * Math_cos (delta_f st))"

definition alpha1_f :: "PendulumState_f \<Rightarrow> PhysicsParams_f \<Rightarrow> number" where
  "alpha1_f st ps = num1_f st ps / (l1_f ps * den1_f st ps)"

definition num2_f :: "PendulumState_f \<Rightarrow> PhysicsParams_f \<Rightarrow> number" where
  "num2_f st ps =
     Fin 2 * Math_sin (delta_f st) *
       (omega1_f st * omega1_f st * l1_f ps * (m1_f ps + m2_f ps)
        + g_f ps * (m1_f ps + m2_f ps) * Math_cos (theta1_f st)
        + omega2_f st * omega2_f st * l2_f ps * m2_f ps * Math_cos (delta_f st))"

definition den2_f :: "PendulumState_f \<Rightarrow> PhysicsParams_f \<Rightarrow> number" where
  "den2_f st ps =
     Fin 2 * m1_f ps + m2_f ps - m2_f ps * Math_cos (Fin 2 * theta1_f st - Fin 2 * theta2_f st)"

definition alpha2_f :: "PendulumState_f \<Rightarrow> PhysicsParams_f \<Rightarrow> number" where
  "alpha2_f st ps = num2_f st ps / (l2_f ps * den2_f st ps)"

definition getDerivatives_f :: "PendulumState_f \<Rightarrow> PhysicsParams_f \<Rightarrow> Derivatives_f" where
  "getDerivatives_f st ps =
     \<lparr>dTheta1_f = omega1_f st, dTheta2_f = omega2_f st,
      dOmega1_f = alpha1_f st ps, dOmega2_f = alpha2_f st ps\<rparr>"

definition integrateRK4Step_f ::
  "PendulumState_f \<Rightarrow> PhysicsParams_f \<Rightarrow> number \<Rightarrow> PendulumState_f" where
  "integrateRK4Step_f st ps dt =
     (let k1 = getDerivatives_f st ps;
          s2 = \<lparr>theta1_f = theta1_f st + dTheta1_f k1 * dt * Fin 0.5,
                theta2_f = theta2_f st + dTheta2_f k1 * dt * Fin 0.5,
                omega1_f = omega1_f st + dOmega1_f k1 * dt * Fin 0.5,
                omega2_f = omega2_f st + dOmega2_f k1 * dt * Fin 0.5\<rparr>;
          k2 = getDerivatives_f s2 ps;
          s3 = \<lparr>theta1_f = theta1_f st + dTheta1_f k2 * dt * Fin 0.5,
                theta2_f = theta2_f st + dTheta2_f k2 * dt * Fin 0.5,
                omega1_f = omega1_f st + dOmega1_f k2 * dt * Fin 0.5,
                omega2_f = omega2_f st + dOmega2_f k2 * dt * Fin 0.5\<rparr>;
          k3 = getDerivatives_f s3 ps;
          s4 = \<lparr>theta1_f = theta1_f st + dTheta1_f k3 * dt,
                theta2_f = theta2_f st + dTheta2_f k3 * dt,
                omega1_f = omega1_f st + dOmega1_f k3 * dt,
                omega2_f = omega2_f st + dOmega2_f k3 * dt\<rparr>;
          k4 = getDerivatives_f s4 ps
      in \<lparr>theta1_f = theta1_f st
            + (dt / Fin 6) * (dTheta1_f k1 + Fin 2 * dTheta1_f k2 + Fin 2 * dTheta1_f k3 + dTheta1_f k4),
          theta2_f = theta2_f st
            + (dt / Fin 6) * (dTheta2_f k1 + Fin 2 * dTheta2_f k2 + Fin 2 * dTheta2_f k3 + dTheta2_f k4),
          omega1_f = omega1_f st
            + (dt / Fin 6) * (dOmega1_f k1 + Fin 2 * dOmega1_f k2 + Fin 2 * dOmega1_f k3 + dOmega1_f k4),
          omega2_f = omega2_f st
            + (dt / Fin 6) * (dOmega2_f k1 + Fin 2 * dOmega2_f k2 + Fin 2 * dOmega2_f k3 + dOmega2_f k4)\<rparr>)"

subsection \<open>The colour mapping in binary64\<close>

text \<open>
  The five branches and the branching once more. A decimal literal of the source that
  is not a double (\<^verbatim>\<open>0.2\<close>, \<^verbatim>\<open>0.4\<close>, \<^verbatim>\<open>0.6\<close>, \<^verbatim>\<open>0.8\<close>) denotes the double nearest
  to it, \<open>rnd\<close> of the decimal.
\<close>

definition segment1_f :: "number \<Rightarrow> number \<times> number \<times> number" where
  "segment1_f intensity =
     (let t = intensity / rnd 0.2 in (Fin 0, Fin 0, Math_floor (t * Fin 160)))"

definition segment2_f :: "number \<Rightarrow> number \<times> number \<times> number" where
  "segment2_f intensity =
     (let t = (intensity - rnd 0.2) / rnd 0.2
      in (Math_floor (t * Fin 100), Fin 0, Fin 160 + Math_floor (t * Fin 95)))"

definition segment3_f :: "number \<Rightarrow> number \<times> number \<times> number" where
  "segment3_f intensity =
     (let t = (intensity - rnd 0.4) / rnd 0.2
      in (Fin 100 + Math_floor (t * Fin 155), Fin 0, Fin 255 - Math_floor (t * Fin 255)))"

definition segment4_f :: "number \<Rightarrow> number \<times> number \<times> number" where
  "segment4_f intensity =
     (let t = (intensity - rnd 0.6) / rnd 0.2 in (Fin 255, Math_floor (t * Fin 200), Fin 0))"

definition segment5_f :: "number \<Rightarrow> number \<times> number \<times> number" where
  "segment5_f intensity =
     (let t = (intensity - rnd 0.8) / rnd 0.2
      in (Fin 255, Fin 200 + Math_floor (t * Fin 55), Math_floor (t * Fin 255)))"

definition color_f :: "number \<Rightarrow> number \<times> number \<times> number" where
  "color_f intensity =
     (if intensity < rnd 0.2 then segment1_f intensity
      else if intensity < rnd 0.4 then segment2_f intensity
      else if intensity < rnd 0.6 then segment3_f intensity
      else if intensity < rnd 0.8 then segment4_f intensity
      else segment5_f intensity)"

text \<open>
  A store into the \<^verbatim>\<open>Uint8ClampedArray\<close>: NaN becomes 0, the value is clamped to
  0..255 and rounded to the nearest integer, a tie going to the even one.
\<close>

definition toUint8Clamped_f :: "number \<Rightarrow> int" where
  "toUint8Clamped_f a =
     (case a of Fin v \<Rightarrow> max 0 (min 255 (round_half_even v)) | PInf \<Rightarrow> 255 | NInf \<Rightarrow> 0 | NaN \<Rightarrow> 0)"

text \<open>
  The body of the \<^verbatim>\<open>while\<close> loop from the line \<^verbatim>\<open>const intensity = normalized\<close> on,
  as a function of the value of \<^verbatim>\<open>intensity\<close>.
\<close>

definition paintIntensity_f :: "number \<Rightarrow> Generator \<Rightarrow> Generator" where
  "paintIntensity_f intensity gen =
     (let idx = pixelIndex gen * 4;
          (r, gr, b) = color_f intensity
      in gen\<lparr>data := (data gen)
                (idx := toUint8Clamped_f r, idx + 1 := toUint8Clamped_f gr,
                 idx + 2 := toUint8Clamped_f b, idx + 3 := toUint8Clamped_f (Fin 255)),
             pixelIndex := pixelIndex gen + 1\<rparr>)"

section \<open>Notions used in the statements\<close>

text \<open>The rest state.\<close>

definition zeroState :: PendulumState where
  "zeroState = \<lparr>theta1 = 0, theta2 = 0, omega1 = 0, omega2 = 0\<rparr>"

text \<open>A list of states in which each state is one integration step after the one before.\<close>

definition chained :: "PhysicsParams \<Rightarrow> real \<Rightarrow> PendulumState list \<Rightarrow> bool" where
  "chained ps dt xs \<longleftrightarrow>
     (\<forall>k < length xs - 1. xs ! Suc k = integrateRK4Step (xs ! k) ps dt)"

text \<open>The state that \<^verbatim>\<open>reset\<close> assigns to \<^verbatim>\<open>this.state\<close>, by its two branches.\<close>

definition resetState ::
  "real option \<Rightarrow> real option \<Rightarrow> real option \<Rightarrow> real option \<Rightarrow> real \<Rightarrow> real
     \<Rightarrow> PendulumSimulation \<Rightarrow> PendulumState" where
  "resetState t1 t2 w1 w2 u1 u2 sim =
     (if t1 = None \<and> t2 = None \<and> w1 = None \<and> w2 = None
      then \<lparr>theta1 = pi / 2 + (u1 * 0.5 - 0.25), theta2 = pi / 2 + 1 + (u2 * 0.5 - 0.25),
            omega1 = 0, omega2 = 0\<rparr>
      else \<lparr>theta1 = (case t1 of Some v \<Rightarrow> v | None \<Rightarrow> theta1 (initialState sim)),
            theta2 = (case t2 of Some v \<Rightarrow> v | None \<Rightarrow> theta2 (initialState sim)),
            omega1 = (case w1 of Some v \<Rightarrow> v | None \<Rightarrow> omega1 (initialState sim)),
            omega2 = (case w2 of Some v \<Rightarrow> v | None \<Rightarrow> omega2 (initialState sim))\<rparr>)"

text \<open>
  The percentage that a batch publishes when it ends with \<open>p\<close> pixels done: the argument
  of \<^verbatim>\<open>setProgress\<close> in \<^verbatim>\<open>processBatch\<close>.
\<close>

definition percent :: "FractalConfig \<Rightarrow> int \<Rightarrow> int" where
  "percent cfg p = Math_round ((of_int p / of_int (totalPixels cfg)) * 100)"

text \<open>
  A clock under which a batch paints at most \<open>c\<close> pixels: the first \<open>c + 1\<close> readings
  are 0, the later ones 12.
\<close>

definition budgetClock :: "nat \<Rightarrow> nat \<Rightarrow> real" where
  "budgetClock c k = (if k \<le> c then 0 else 12)"

subsection \<open>The chaos map in the words of the specification\<close>

text \<open>
  The state of a trajectory after \<open>k\<close> steps of the integrator, the Euclidean distance of
  two states in their four components, the divergence score (the mean over all steps of
  the distance after each step, at most 2.0 each), a clamp, and the intensity
  \<open>clamp(0, 1, (score / 1.5) ^ 0.4)\<close>.
\<close>

definition spec_trajectory :: "real \<Rightarrow> PendulumState \<Rightarrow> nat \<Rightarrow> PendulumState" where
  "spec_trajectory dt s0 k = ((\<lambda>s. integrateRK4Step s FRACTAL_PARAMS dt) ^^ k) s0"

definition spec_distance :: "PendulumState \<Rightarrow> PendulumState \<Rightarrow> real" where
  "spec_distance a b =
     sqrt ((theta1 a - theta1 b)\<^sup>2 + (theta2 a - theta2 b)\<^sup>2
           + (omega1 a - omega1 b)\<^sup>2 + (omega2 a - omega2 b)\<^sup>2)"

definition spec_score :: "FractalConfig \<Rightarrow> PendulumState \<Rightarrow> PendulumState \<Rightarrow> real" where
  "spec_score cfg a0 b0 =
     (\<Sum>k = 1..nat (SIM_STEPS cfg).
        min (spec_distance (spec_trajectory (DT cfg) a0 k) (spec_trajectory (DT cfg) b0 k)) 2)
     / of_int (SIM_STEPS cfg)"

definition spec_clamp :: "real \<Rightarrow> real \<Rightarrow> real \<Rightarrow> real" where
  "spec_clamp lo hi v = max lo (min hi v)"

definition spec_intensity :: "real \<Rightarrow> real" where
  "spec_intensity score = spec_clamp 0 1 ((score / 1.5) powr 0.4)"

subsection \<open>Notions for binary64\<close>

text \<open>A number that is a finite double.\<close>

definition finite_double :: "number \<Rightarrow> bool" where
  "finite_double a = (case a of Fin x \<Rightarrow> is_double x | _ \<Rightarrow> False)"

text \<open>A number that is finite and of magnitude at most \<open>b\<close>.\<close>

definition magnitude_le :: "real \<Rightarrow> number \<Rightarrow> bool" where
  "magnitude_le b a = (case a of Fin x \<Rightarrow> \<bar>x\<bar> \<le> b | _ \<Rightarrow> False)"

text \<open>A colour channel: an integer from 0 to 255.\<close>

definition channel :: "number \<Rightarrow> bool" where
  "channel a = (case a of Fin v \<Rightarrow> of_int \<lfloor>v\<rfloor> = v \<and> 0 \<le> v \<and> v \<le> 255 | _ \<Rightarrow> False)"

definition rgb :: "number \<times> number \<times> number \<Rightarrow> bool" where
  "rgb c = (case c of (r, gr, b) \<Rightarrow> channel r \<and> channel gr \<and> channel b)"



text \<open>A state with a large, finite first velocity: the square of \<open>2^512\<close> overflows.\<close>

definition fastState :: PendulumState_f where
  "fastState = \<lparr>theta1_f = Fin 0, theta2_f = Fin 0, omega1_f = Fin (2 ^ 512), omega2_f = Fin 0\<rparr>"

text \<open>A state at the hanging position with the velocities 1 and 2.\<close>

definition slowState :: PendulumState_f where
  "slowState = \<lparr>theta1_f = Fin 0, theta2_f = Fin 0, omega1_f = Fin 1, omega2_f = Fin 2\<rparr>"

section \<open>Binary64 arithmetic: rounding\<close>

text \<open>
  Rounding is the identity on a double, it keeps every bound that is a double, and its
  result is a double. The lemmas \<open>rnd_eval\<close> and \<open>is_double_eval\<close> compute a rounding
  and check a double from the binade \<open>2^E \<le> \<bar>x\<bar> < 2^(E+1)\<close> of the value.
\<close>

lemma round_half_even_of_int: "round_half_even (of_int n) = n"
  by (simp add: round_half_even_def)

lemma round_half_even_cases: "round_half_even q = \<lfloor>q\<rfloor> \<or> round_half_even q = \<lfloor>q\<rfloor> + 1"
  by (simp add: round_half_even_def Let_def)

lemma round_half_even_ge: "of_int n \<le> q \<Longrightarrow> n \<le> round_half_even q"
proof -
  assume "of_int n \<le> q"
  then have "n \<le> \<lfloor>q\<rfloor>" by (simp add: le_floor_iff)
  with round_half_even_cases [of q] show ?thesis by linarith
qed

lemma round_half_even_le: "q \<le> of_int n \<Longrightarrow> round_half_even q \<le> n"
proof (cases "q = of_int \<lfloor>q\<rfloor>")
  case True
  assume "q \<le> of_int n"
  then have "\<lfloor>q\<rfloor> \<le> n" using True by linarith
  moreover have "round_half_even q = \<lfloor>q\<rfloor>"
    using round_half_even_of_int [of "\<lfloor>q\<rfloor>"] True by simp
  ultimately show ?thesis by simp
next
  case False
  assume le: "q \<le> of_int n"
  have "of_int \<lfloor>q\<rfloor> < q" using False of_int_floor_le [of q] by linarith
  with le have "\<lfloor>q\<rfloor> < n" by linarith
  with round_half_even_cases [of q] show ?thesis by linarith
qed

lemma round_half_even_minus: "round_half_even (- q) = - round_half_even q"
proof (cases "q = of_int \<lfloor>q\<rfloor>")
  case True
  then obtain n where "q = of_int n" by blast
  then have "- q = of_int (- n)" by simp
  then show ?thesis
    using round_half_even_of_int [of "- n"] round_half_even_of_int [of n] \<open>q = of_int n\<close>
    by simp
next
  case False
  then have fl: "\<lfloor>- q\<rfloor> = - \<lfloor>q\<rfloor> - 1"
    by (simp add: floor_minus ceiling_altdef)
  have r: "0 < q - of_int \<lfloor>q\<rfloor>" "q - of_int \<lfloor>q\<rfloor> < 1"
    using False of_int_floor_le [of q] floor_less_one [of q] by linarith+
  show ?thesis
    unfolding round_half_even_def Let_def fl using r
    by (auto simp: algebra_simps)
qed

lemma round_half_even_eval:
  assumes "\<bar>q - of_int n\<bar> < 1 / 2"
  shows "round_half_even q = n"
proof (cases "of_int n \<le> q")
  case True
  with assms have "q < of_int n + 1" by linarith
  with True have f: "\<lfloor>q\<rfloor> = n" by linarith
  have "q - of_int n < 1 / 2" using assms by linarith
  then show ?thesis by (simp add: round_half_even_def Let_def f)
next
  case False
  with assms have "of_int (n - 1) \<le> q" "q < of_int (n - 1) + 1" by simp_all
  then have f: "\<lfloor>q\<rfloor> = n - 1" by linarith
  have "1 / 2 < q - of_int (n - 1)" using assms False by simp
  then have "\<not> q - of_int (n - 1) < 1 / 2" by linarith
  then show ?thesis using \<open>1 / 2 < q - of_int (n - 1)\<close>
    by (simp add: round_half_even_def Let_def f)
qed

lemma log2_bounds:
  assumes "x \<noteq> 0"
  shows "2 powi \<lfloor>log 2 \<bar>x\<bar>\<rfloor> \<le> \<bar>x\<bar>" and "\<bar>x\<bar> < 2 powi (\<lfloor>log 2 \<bar>x\<bar>\<rfloor> + 1)"
proof -
  have pos: "0 < \<bar>x\<bar>" using assms by simp
  have "2 powr of_int \<lfloor>log 2 \<bar>x\<bar>\<rfloor> \<le> \<bar>x\<bar> \<and> \<bar>x\<bar> < 2 powr (of_int \<lfloor>log 2 \<bar>x\<bar>\<rfloor> + 1)"
    using floor_log_eq_powr_iff [OF pos, of 2 "\<lfloor>log 2 \<bar>x\<bar>\<rfloor>"] by simp
  moreover have "2 powr (of_int \<lfloor>log 2 \<bar>x\<bar>\<rfloor> + 1) = (2::real) powr of_int (\<lfloor>log 2 \<bar>x\<bar>\<rfloor> + 1)"
    by simp
  ultimately show "2 powi \<lfloor>log 2 \<bar>x\<bar>\<rfloor> \<le> \<bar>x\<bar>" and "\<bar>x\<bar> < 2 powi (\<lfloor>log 2 \<bar>x\<bar>\<rfloor> + 1)"
    by (simp_all only: powr_real_of_int' [of 2, simplified])
qed

lemma floor_log2_eq:
  assumes "2 powi k \<le> \<bar>x\<bar>" and "\<bar>x\<bar> < 2 powi (k + 1)"
  shows "\<lfloor>log 2 \<bar>x\<bar>\<rfloor> = k"
proof -
  have pos: "0 < \<bar>x\<bar>"
    using assms(1) zero_less_power_int [of "2::real" k] by linarith
  have "2 powr of_int k \<le> \<bar>x\<bar> \<and> \<bar>x\<bar> < 2 powr (of_int k + 1)"
    using assms powr_real_of_int' [of "2::real" k] powr_real_of_int' [of "2::real" "k + 1"]
    by simp
  then show ?thesis
    using floor_log_eq_powr_iff [OF pos, of 2 k] by simp
qed

lemma ulp_exp_eq:
  assumes "2 powi k \<le> \<bar>x\<bar>" and "\<bar>x\<bar> < 2 powi (k + 1)"
  shows "ulp_exp x = max (- 1074) (k - 52)"
  by (simp add: ulp_exp_def floor_log2_eq [OF assms])

lemma ulp_exp_minus: "ulp_exp (- x) = ulp_exp x"
  by (simp add: ulp_exp_def)

lemma ulp_exp_mono:
  assumes "x \<noteq> 0" and "\<bar>x\<bar> \<le> \<bar>y\<bar>"
  shows "ulp_exp x \<le> ulp_exp y"
proof -
  have "log 2 \<bar>x\<bar> \<le> log 2 \<bar>y\<bar>"
    using assms by simp
  then have "\<lfloor>log 2 \<bar>x\<bar>\<rfloor> \<le> \<lfloor>log 2 \<bar>y\<bar>\<rfloor>"
    by (rule floor_mono)
  then show ?thesis by (simp add: ulp_exp_def)
qed

lemma powi_int_multiple:
  assumes "a \<le> b"
  shows "\<exists>k::int. (2::real) powi b = of_int k * 2 powi a \<and> 0 < k"
proof -
  have "(2::real) powi b = 2 powi (b - a) * 2 powi a"
    by (simp add: power_int_add [symmetric])
  moreover have "(2::real) powi (b - a) = of_int (2 ^ nat (b - a))"
    using assms by (simp add: power_int_def)
  ultimately show ?thesis
    by (intro exI [of _ "2 ^ nat (b - a)"]) simp
qed

lemma is_double_iff:
  "is_double x \<longleftrightarrow>
     x = 0 \<or> (\<bar>x\<bar> < 2 ^ 1024 \<and> (\<exists>n::int. x = of_int n * 2 powi ulp_exp x))"
proof -
  have "(of_int \<lfloor>x / 2 powi ulp_exp x\<rfloor> = x / 2 powi ulp_exp x)
          \<longleftrightarrow> (\<exists>n::int. x = of_int n * 2 powi ulp_exp x)"
  proof
    assume "of_int \<lfloor>x / 2 powi ulp_exp x\<rfloor> = x / 2 powi ulp_exp x"
    then have "x = of_int \<lfloor>x / 2 powi ulp_exp x\<rfloor> * 2 powi ulp_exp x"
      by (simp only: nonzero_eq_divide_eq [symmetric] power_int_eq_0_iff) simp
    then show "\<exists>n::int. x = of_int n * 2 powi ulp_exp x" by blast
  next
    assume "\<exists>n::int. x = of_int n * 2 powi ulp_exp x"
    then obtain n :: int where "x = of_int n * 2 powi ulp_exp x" by blast
    then have "x / 2 powi ulp_exp x = of_int n" by (simp add: field_simps)
    then show "of_int \<lfloor>x / 2 powi ulp_exp x\<rfloor> = x / 2 powi ulp_exp x" by simp
  qed
  then show ?thesis by (simp only: is_double_def)
qed

lemma is_double_multiple:
  assumes "is_double c" and "e \<le> ulp_exp c"
  shows "\<exists>m::int. c = of_int m * 2 powi e"
proof (cases "c = 0")
  case True
  then show ?thesis by (intro exI [of _ 0]) simp
next
  case False
  with assms(1) obtain n :: int where c: "c = of_int n * 2 powi ulp_exp c"
    by (auto simp: is_double_iff)
  obtain k :: int where k: "(2::real) powi ulp_exp c = of_int k * 2 powi e"
    using powi_int_multiple [OF assms(2)] by blast
  have "c = of_int (n * k) * 2 powi e"
    by (subst c) (simp add: k)
  then show ?thesis by blast
qed

lemma is_double_minus: "is_double (- c) = is_double c"
proof -
  have "(\<exists>n::int. - c = of_int n * 2 powi ulp_exp c) \<longleftrightarrow> (\<exists>n::int. c = of_int n * 2 powi ulp_exp c)"
  proof
    assume "\<exists>n::int. - c = of_int n * 2 powi ulp_exp c"
    then obtain n :: int where "- c = of_int n * 2 powi ulp_exp c" by blast
    then have "c = of_int (- n) * 2 powi ulp_exp c" by simp
    then show "\<exists>n::int. c = of_int n * 2 powi ulp_exp c" by blast
  next
    assume "\<exists>n::int. c = of_int n * 2 powi ulp_exp c"
    then obtain n :: int where "c = of_int n * 2 powi ulp_exp c" by blast
    then have "- c = of_int (- n) * 2 powi ulp_exp c" by simp
    then show "\<exists>n::int. - c = of_int n * 2 powi ulp_exp c" by blast
  qed
  then show ?thesis
    by (simp add: is_double_iff ulp_exp_minus)
qed

lemma is_double_least:
  assumes "is_double c" and "c \<noteq> 0"
  shows "2 powi (- 1074) \<le> \<bar>c\<bar>"
proof -
  obtain m :: int where m: "c = of_int m * 2 powi ulp_exp c"
    using is_double_multiple [OF assms(1) order_refl] by blast
  with assms(2) have "m \<noteq> 0" by auto
  then have "1 \<le> \<bar>m\<bar>" by linarith
  then have "1 \<le> \<bar>of_int m :: real\<bar>"
    by (metis of_int_abs of_int_1_le_iff)
  then have "1 * 2 powi ulp_exp c \<le> \<bar>of_int m :: real\<bar> * 2 powi ulp_exp c"
    by (intro mult_right_mono) simp_all
  also have "\<dots> = \<bar>c\<bar>"
    by (subst (2) m) (simp add: abs_mult)
  finally have "2 powi ulp_exp c \<le> \<bar>c\<bar>" by simp
  moreover have "(2::real) powi (- 1074) \<le> 2 powi ulp_exp c"
    by (rule power_int_increasing) (simp_all add: ulp_exp_def)
  ultimately show ?thesis by linarith
qed

lemma rnd_0: "rnd 0 = Fin 0"
  by (simp add: rnd_def)

lemma rnd_exact:
  assumes "is_double x"
  shows "rnd x = Fin x"
proof (cases "x = 0")
  case True
  then show ?thesis by (simp add: rnd_def)
next
  case False
  with assms obtain n :: int where n: "x = of_int n * 2 powi ulp_exp x" and fin: "\<bar>x\<bar> < 2 ^ 1024"
    by (auto simp: is_double_iff)
  have "x / 2 powi ulp_exp x = of_int n"
    by (subst n) simp
  then have "rounded x = x"
    using n by (simp add: rounded_def Let_def round_half_even_of_int)
  then show ?thesis
    using False fin by (simp add: rnd_def Let_def)
qed

text \<open>The value before the overflow test.\<close>

lemma rounded_upper:
  assumes "x \<noteq> 0" and "x \<le> c" and "is_double c"
  shows "rounded x \<le> c"
proof -
  define e where "e = ulp_exp x"
  define u :: real where "u = 2 powi e"
  define n where "n = round_half_even (x / u)"
  have u: "0 < u" by (simp add: u_def)
  have multiple: "of_int n * u \<le> c" if m: "c = of_int m * u" for m :: int
  proof -
    have "x / u \<le> of_int m"
      using assms(2) u by (simp add: m field_simps)
    then have "n \<le> m" unfolding n_def by (rule round_half_even_le)
    then have "(of_int n :: real) \<le> of_int m"
      by (simp only: of_int_le_iff)
    then have "of_int n * u \<le> of_int m * u"
      using u by (intro mult_right_mono) simp_all
    then show ?thesis by (simp add: m)
  qed
  consider "0 < x" | "x < 0" "0 \<le> c" | "x < 0" "c < 0"
    using assms(1) by linarith
  then have "of_int n * u \<le> c"
  proof cases
    case 1
    then have "\<bar>x\<bar> \<le> \<bar>c\<bar>" using assms(2) by simp
    then have "e \<le> ulp_exp c"
      unfolding e_def by (rule ulp_exp_mono [OF assms(1)])
    then obtain m :: int where "c = of_int m * u"
      using is_double_multiple [OF assms(3)] u_def by blast
    then show ?thesis by (rule multiple)
  next
    case 2
    then have "x / u \<le> of_int 0" using u by (simp add: field_simps)
    then have "n \<le> 0" unfolding n_def by (rule round_half_even_le)
    then have "of_int n * u \<le> 0"
      using u by (simp add: mult_nonpos_nonneg)
    with 2 show ?thesis by linarith
  next
    case 3
    define E where "E = \<lfloor>log 2 \<bar>x\<bar>\<rfloor>"
    have E: "2 powi E \<le> \<bar>x\<bar>" "\<bar>x\<bar> < 2 powi (E + 1)"
      unfolding E_def by (rule log2_bounds [OF assms(1)])+
    have e: "e = max (- 1074) (E - 52)"
      by (simp add: e_def ulp_exp_def E_def)
    have cx: "\<bar>c\<bar> \<le> \<bar>x\<bar>" using 3 assms(2) by simp
    show ?thesis
    proof (cases "2 powi E \<le> \<bar>c\<bar>")
      case True
      have "\<bar>c\<bar> < 2 powi (E + 1)" using cx E(2) by linarith
      then have "ulp_exp c = e"
        using ulp_exp_eq [OF True] e by simp
      then obtain m :: int where "c = of_int m * u"
        using is_double_multiple [OF assms(3), of e] u_def by auto
      then show ?thesis by (rule multiple)
    next
      case False
      have "2 powi (- 1074) \<le> \<bar>c\<bar>"
        by (rule is_double_least [OF assms(3)]) (use 3 in simp)
      with False have "(2::real) powi (- 1074) < 2 powi E" by linarith
      then have "- 1074 < E"
        using power_int_increasing [of E "- 1074" "2::real"] by (cases "- 1074 < E") simp_all
      then have "e \<le> E" by (simp add: e)
      then obtain k :: int where k: "(2::real) powi E = of_int k * u"
        using powi_int_multiple [of e E] u_def by blast
      have "x / u \<le> of_int (- k)"
        using E(1) 3 u by (simp add: k field_simps)
      then have "n \<le> - k" unfolding n_def by (rule round_half_even_le)
      then have "(of_int n :: real) \<le> of_int (- k)"
        by (simp only: of_int_le_iff)
      then have "of_int n * u \<le> of_int (- k) * u"
        using u by (intro mult_right_mono) simp_all
      also have "\<dots> = - (2 powi E)" by (simp add: k)
      finally show ?thesis using False 3 by linarith
    qed
  qed
  then show ?thesis by (simp add: rounded_def Let_def n_def u_def e_def)
qed

lemma rounded_minus: "rounded (- x) = - rounded x"
  by (simp add: rounded_def Let_def ulp_exp_minus round_half_even_minus)

lemma rounded_lower:
  assumes "x \<noteq> 0" and "c \<le> x" and "is_double c"
  shows "c \<le> rounded x"
proof -
  have "rounded (- x) \<le> - c"
    by (rule rounded_upper) (use assms in \<open>simp_all add: is_double_minus\<close>)
  then show ?thesis
    unfolding rounded_minus by simp
qed

lemma rounded_sign:
  "0 < x \<Longrightarrow> 0 \<le> rounded x"
  "x < 0 \<Longrightarrow> rounded x \<le> 0"
proof -
  have zero: "is_double 0" by (simp add: is_double_def)
  show "0 < x \<Longrightarrow> 0 \<le> rounded x"
    by (rule rounded_lower [OF _ _ zero]) simp_all
  show "x < 0 \<Longrightarrow> rounded x \<le> 0"
    by (rule rounded_upper [OF _ _ zero]) simp_all
qed

lemma rnd_upper:
  assumes "x \<le> c" and "is_double c"
  shows "rnd x = NInf \<or> (\<exists>y. rnd x = Fin y \<and> y \<le> c)"
proof (cases "x = 0")
  case True
  with assms(1) show ?thesis by (simp add: rnd_def)
next
  case False
  define y where "y = rounded x"
  have le: "y \<le> c" unfolding y_def by (rule rounded_upper [OF False assms])
  have c: "c < 2 ^ 1024" using assms(2) by (auto simp: is_double_def)
  show ?thesis
  proof (cases "2 ^ 1024 \<le> \<bar>y\<bar>")
    case True
    with le c have "y < 0" by linarith
    then have "\<not> 0 < x" using rounded_sign(1) [of x] y_def by fastforce
    then show ?thesis using True False by (simp add: rnd_def Let_def y_def)
  next
    case False
    then have "rnd x = Fin y" using \<open>x \<noteq> 0\<close> by (simp add: rnd_def Let_def y_def)
    with le show ?thesis by simp
  qed
qed

lemma rnd_lower:
  assumes "c \<le> x" and "is_double c"
  shows "rnd x = PInf \<or> (\<exists>y. rnd x = Fin y \<and> c \<le> y)"
proof (cases "x = 0")
  case True
  with assms(1) show ?thesis by (simp add: rnd_def)
next
  case False
  define y where "y = rounded x"
  have le: "c \<le> y" unfolding y_def by (rule rounded_lower [OF False assms])
  have c: "- (2 ^ 1024) < c" using assms(2) by (auto simp: is_double_def)
  show ?thesis
  proof (cases "2 ^ 1024 \<le> \<bar>y\<bar>")
    case True
    with le c have "0 < y" by linarith
    then have "\<not> x < 0" using rounded_sign(2) [of x] y_def by fastforce
    then have "0 < x" using False by simp
    then show ?thesis using True False by (simp add: rnd_def Let_def y_def)
  next
    case False
    then have "rnd x = Fin y" using \<open>x \<noteq> 0\<close> by (simp add: rnd_def Let_def y_def)
    with le show ?thesis by simp
  qed
qed

lemma rnd_between:
  assumes "c1 \<le> x" and "x \<le> c2" and "is_double c1" and "is_double c2"
  shows "\<exists>y. rnd x = Fin y \<and> c1 \<le> y \<and> y \<le> c2"
  using rnd_lower [OF assms(1,3)] rnd_upper [OF assms(2,4)] by auto

lemma rnd_eval:
  assumes "2 powi E \<le> \<bar>x\<bar>" and "\<bar>x\<bar> < 2 powi (E + 1)" and "- 1022 \<le> E"
    and "\<bar>x / 2 powi (E - 52) - of_int n\<bar> < 1 / 2"
    and "\<bar>of_int n * 2 powi (E - 52)\<bar> < (2::real) ^ 1024"
  shows "rnd x = Fin (of_int n * 2 powi (E - 52))"
proof -
  have nz: "x \<noteq> 0"
  proof
    assume "x = 0"
    with assms(1) have "2 powi E \<le> (0::real)" by simp
    moreover have "0 < (2::real) powi E" by simp
    ultimately show False by linarith
  qed
  have u: "ulp_exp x = E - 52"
    using ulp_exp_eq [OF assms(1,2)] assms(3) by simp
  have r: "rounded x = of_int n * 2 powi (E - 52)"
    by (simp add: rounded_def Let_def u round_half_even_eval [OF assms(4)])
  show ?thesis
    using nz assms(5) by (simp add: rnd_def Let_def r)
qed

lemma is_double_eval:
  assumes "2 powi E \<le> \<bar>x\<bar>" and "\<bar>x\<bar> < 2 powi (E + 1)" and "- 1022 \<le> E" and "E \<le> 1023"
    and "x = of_int n * 2 powi (E - 52)"
  shows "is_double x"
proof -
  have u: "ulp_exp x = E - 52"
    using ulp_exp_eq [OF assms(1,2)] assms(3) by simp
  have "(2::real) powi (E + 1) \<le> 2 powi 1024"
    by (rule power_int_increasing) (use assms(4) in simp_all)
  with assms(2) have "\<bar>x\<bar> < 2 ^ 1024" by simp
  moreover have "\<exists>m::int. x = of_int m * 2 powi ulp_exp x"
    using assms(5) u by auto
  ultimately show ?thesis by (simp add: is_double_iff)
qed

lemma is_double_0: "is_double 0"
  by (simp add: is_double_def)

lemma is_double_int:
  assumes "\<bar>n\<bar> < 2 ^ 53"
  shows "is_double (of_int n)"
proof (cases "n = 0")
  case True
  then show ?thesis by (simp add: is_double_def)
next
  case False
  define x :: real where "x = of_int n"
  define k where "k = \<lfloor>log 2 \<bar>x\<bar>\<rfloor>"
  have nz: "x \<noteq> 0" using False by (simp add: x_def)
  have lo: "2 powi k \<le> \<bar>x\<bar>" and hi: "\<bar>x\<bar> < 2 powi (k + 1)"
    using log2_bounds [OF nz] by (simp_all add: k_def)
  have "1 \<le> \<bar>n\<bar>" using False by linarith
  then have one: "1 \<le> \<bar>x\<bar>" unfolding x_def by (metis of_int_abs of_int_1_le_iff)
  have lt: "\<bar>x\<bar> < 2 ^ 53"
  proof -
    have "(of_int \<bar>n\<bar> :: real) < of_int (2 ^ 53)"
      using assms by (simp only: of_int_less_iff)
    then show ?thesis by (simp add: x_def)
  qed
  have k0: "0 \<le> k"
  proof (rule ccontr)
    assume "\<not> 0 \<le> k"
    then have "k + 1 \<le> 0" by simp
    then have "(2::real) powi (k + 1) \<le> 2 powi 0"
      by (intro power_int_increasing) simp_all
    with hi one show False by simp
  qed
  have k52: "k \<le> 52"
  proof (rule ccontr)
    assume "\<not> k \<le> 52"
    then have "53 \<le> k" by simp
    then have "(2::real) powi 53 \<le> 2 powi k"
      by (intro power_int_increasing) simp_all
    with lo lt show False by simp
  qed
  have u: "ulp_exp x = k - 52"
    using ulp_exp_eq [OF lo hi] k0 by simp
  obtain m :: int where m: "(2::real) powi 0 = of_int m * 2 powi (k - 52)"
    using powi_int_multiple [of "k - 52" 0] k52 by auto
  have "x = of_int (n * m) * 2 powi (k - 52)"
    using m by (simp add: x_def)
  then have "\<exists>j::int. x = of_int j * 2 powi ulp_exp x"
    unfolding u by blast
  moreover have "\<bar>x\<bar> < 2 ^ 1024"
  proof -
    have "(2::real) ^ 53 \<le> 2 ^ 1024" by (rule power_increasing) simp_all
    with lt show ?thesis by linarith
  qed
  ultimately show ?thesis
    unfolding x_def [symmetric] by (simp add: is_double_iff)
qed

lemma is_double_numeral: "numeral w < (2::int) ^ 53 \<Longrightarrow> is_double (numeral w)"
  using is_double_int [of "numeral w"] by simp

lemma is_double_1: "is_double 1"
  using is_double_int [of 1] by simp

lemma rnd_numeral: "numeral w < (2::int) ^ 53 \<Longrightarrow> rnd (numeral w) = Fin (numeral w)"
  by (rule rnd_exact) (rule is_double_numeral)

lemma rnd_1: "rnd 1 = Fin 1"
  by (rule rnd_exact) (rule is_double_1)

lemma rnd_neg_numeral:
  "numeral w < (2::int) ^ 53 \<Longrightarrow> rnd (- numeral w) = Fin (- numeral w)"
  by (rule rnd_exact) (simp only: is_double_minus is_double_numeral)

lemma rnd_overflow:
  assumes "2 ^ 1024 \<le> x"
  shows "rnd x = PInf"
proof -
  have pos: "0 < x"
  proof -
    have "(0::real) < 2 ^ 1024" by simp
    with assms show ?thesis by linarith
  qed
  then have nz: "x \<noteq> 0" by simp
  define k where "k = \<lfloor>log 2 \<bar>x\<bar>\<rfloor>"
  have lo: "2 powi k \<le> \<bar>x\<bar>" and hi: "\<bar>x\<bar> < 2 powi (k + 1)"
    using log2_bounds [OF nz] by (simp_all add: k_def)
  have k: "1024 \<le> k"
  proof (rule ccontr)
    assume "\<not> 1024 \<le> k"
    then have "k + 1 \<le> 1024" by simp
    then have "(2::real) powi (k + 1) \<le> 2 powi 1024"
      by (intro power_int_increasing) simp_all
    with hi assms pos show False by simp
  qed
  have u: "ulp_exp x = k - 52"
    using ulp_exp_eq [OF lo hi] k by simp
  have "(2::real) powi k = of_int (2 ^ 52) * 2 powi (k - 52)"
  proof -
    show ?thesis
      using power_int_add [of "2::real" 52 "k - 52"] by simp
  qed
  then have "of_int (2 ^ 52) \<le> x / 2 powi (k - 52)"
    using lo pos by (simp add: field_simps)
  then have "2 ^ 52 \<le> round_half_even (x / 2 powi (k - 52))"
    by (rule round_half_even_ge)
  then have "(of_int (2 ^ 52) :: real) \<le> of_int (round_half_even (x / 2 powi (k - 52)))"
    by (simp only: of_int_le_iff)
  then have "of_int (2 ^ 52) * 2 powi (k - 52)
      \<le> of_int (round_half_even (x / 2 powi (k - 52))) * (2::real) powi (k - 52)"
    by (intro mult_right_mono) simp_all
  then have "2 powi k \<le> rounded x"
    using \<open>(2::real) powi k = of_int (2 ^ 52) * 2 powi (k - 52)\<close>
    by (simp add: rounded_def Let_def u)
  moreover have "(2::real) powi 1024 \<le> 2 powi k"
    by (rule power_int_increasing) (use k in simp_all)
  ultimately have "2 ^ 1024 \<le> rounded x" by simp
  then have "2 ^ 1024 \<le> \<bar>rounded x\<bar>" by linarith
  then show ?thesis using pos nz by (simp add: rnd_def Let_def)
qed

lemma is_double_pow2:
  assumes "k \<le> 1023"
  shows "is_double (2 ^ k)"
proof -
  have p: "(2::real) powi int k = 2 ^ k" by simp
  have "(2::real) powi (int k + 1) = 2 ^ Suc k"
    using power_int_of_nat [of "2::real" "Suc k"] by (simp add: add.commute)
  then have hi: "\<bar>(2::real) ^ k\<bar> < 2 powi (int k + 1)" by simp
  have "(2::real) powi int k = 2 powi 52 * 2 powi (int k - 52)"
    using power_int_add [of "2::real" 52 "int k - 52"] by simp
  then have eq: "(2::real) ^ k = of_int (2 ^ 52) * 2 powi (int k - 52)"
    by simp
  show ?thesis
    by (rule is_double_eval [of "int k" _ "2 ^ 52"]) (use assms p hi eq in simp_all)
qed








subsection \<open>The operators and the literals\<close>

lemmas number_ops = plus_number_def uminus_number_def minus_number_def times_number_def
  divide_number_def less_number_def

lemmas number_simps = number_ops rnd_0 rnd_1 rnd_numeral



lemma magnitude_le_iff: "magnitude_le b a \<longleftrightarrow> (\<exists>x. a = Fin x \<and> \<bar>x\<bar> \<le> b)"
  by (cases a) (auto simp: magnitude_le_def)

lemma finite_double_iff: "finite_double a \<longleftrightarrow> (\<exists>x. a = Fin x \<and> is_double x)"
  by (cases a) (auto simp: finite_double_def)

lemma rnd_magnitude:
  assumes "\<bar>x\<bar> \<le> c" and "is_double c"
  shows "\<exists>y. rnd x = Fin y \<and> \<bar>y\<bar> \<le> c"
proof -
  have "- c \<le> x" "x \<le> c" using assms(1) by linarith+
  moreover have "is_double (- c)" using assms(2) by (simp add: is_double_minus)
  ultimately obtain y where "rnd x = Fin y" "- c \<le> y" "y \<le> c"
    using rnd_between [of "- c" x c] assms(2) by blast
  then show ?thesis by (intro exI [of _ y]) (simp add: abs_le_iff)
qed


lemma fadd_NaN_right: "a + NaN = NaN"
  by (cases a) (simp_all add: number_ops)

text \<open>The doubles that the literals \<^verbatim>\<open>0.2\<close>, \<^verbatim>\<open>0.4\<close>, \<^verbatim>\<open>0.6\<close> and \<^verbatim>\<open>0.8\<close> denote.\<close>

lemma rnd_02: "rnd 0.2 = Fin (3602879701896397 / 2 ^ 54)"
  using rnd_eval [of "- 3" "0.2" 7205759403792794] by simp

lemma rnd_04: "rnd 0.4 = Fin (3602879701896397 / 2 ^ 53)"
  using rnd_eval [of "- 2" "0.4" 7205759403792794] by simp

lemma rnd_06: "rnd 0.6 = Fin (5404319552844595 / 2 ^ 53)"
  using rnd_eval [of "- 1" "0.6" 5404319552844595] by simp

lemma rnd_08: "rnd 0.8 = Fin (3602879701896397 / 2 ^ 52)"
  using rnd_eval [of "- 1" "0.8" 7205759403792794] by simp

section \<open>The integrator\<close>

subsection \<open>The denominator\<close>

text \<open>
  In exact arithmetic the denominator is at least \<open>2*m1\<close> when \<open>m2\<close> is not negative.
  The code computes it in binary64, where rounding can take it below \<open>2*m1\<close> and down
  to 0, as shown next.
\<close>

lemma den1_lower: "0 \<le> m2 ps \<Longrightarrow> 2 * m1 ps \<le> den1 st ps"
proof -
  assume nonneg: "0 \<le> m2 ps"
  have "m2 ps * cos (2 * theta1 st - 2 * theta2 st) \<le> m2 ps * 1"
    by (rule mult_left_mono) (simp_all add: nonneg)
  then show ?thesis by (simp add: den1_def)
qed

lemma den2_eq_den1: "den2 st ps = den1 st ps"
  by (simp add: den1_def den2_def)















subsection \<open>Zero time step\<close>

text \<open>
  In exact arithmetic a step of length 0 returns its state. In binary64 it does so when
  the derivatives at the state are finite; a product of 0 and a derivative that is not
  finite is NaN.
\<close>

lemma integrateRK4Step_zero_dt: "integrateRK4Step st ps 0 = st"
  by (simp add: integrateRK4Step_def Let_def)

lemma zero_increment_half:
  assumes "magnitude_le c k" and "finite_double a"
  shows "a + k * Fin 0 * Fin 0.5 = a"
proof -
  obtain x where k: "k = Fin x" using assms(1) by (auto simp: magnitude_le_iff)
  obtain y where a: "a = Fin y" "is_double y" using assms(2) by (auto simp: finite_double_iff)
  show ?thesis by (simp add: k a(1) number_ops rnd_0 rnd_exact [OF a(2)])
qed

lemma zero_increment:
  assumes "magnitude_le c k" and "finite_double a"
  shows "a + k * Fin 0 = a"
proof -
  obtain x where k: "k = Fin x" using assms(1) by (auto simp: magnitude_le_iff)
  obtain y where a: "a = Fin y" "is_double y" using assms(2) by (auto simp: finite_double_iff)
  show ?thesis by (simp add: k a(1) number_ops rnd_0 rnd_exact [OF a(2)])
qed

lemma weighted_sum_finite:
  assumes "\<bar>x\<bar> \<le> 2 ^ 1000"
  shows "\<exists>z. Fin x + Fin 2 * Fin x + Fin 2 * Fin x + Fin x = Fin z"
proof -
  have d1: "is_double (2 ^ 1001)" and d2: "is_double (2 ^ 1002)"
    and d3: "is_double (2 ^ 1003)" and d4: "is_double (2 ^ 1004)"
    by (rule is_double_pow2, simp)+
  have "\<bar>2 * x\<bar> \<le> 2 ^ 1001" using assms by simp
  then obtain u where u: "rnd (2 * x) = Fin u" "\<bar>u\<bar> \<le> 2 ^ 1001"
    using rnd_magnitude [OF _ d1] by blast
  have "\<bar>x + u\<bar> \<le> 2 ^ 1002" using assms u(2) by simp
  then obtain v where v: "rnd (x + u) = Fin v" "\<bar>v\<bar> \<le> 2 ^ 1002"
    using rnd_magnitude [OF _ d2] by blast
  have "\<bar>v + u\<bar> \<le> 2 ^ 1003" using v(2) u(2) by simp
  then obtain w where w: "rnd (v + u) = Fin w" "\<bar>w\<bar> \<le> 2 ^ 1003"
    using rnd_magnitude [OF _ d3] by blast
  have "\<bar>w + x\<bar> \<le> 2 ^ 1004" using w(2) assms by simp
  then obtain z where z: "rnd (w + x) = Fin z"
    using rnd_magnitude [OF _ d4] by blast
  show ?thesis
    by (simp add: number_ops u(1) v(1) w(1) z)
qed

lemma zero_weighted_sum:
  assumes "magnitude_le (2 ^ 1000) k" and "finite_double a"
  shows "a + (Fin 0 / Fin 6) * (k + Fin 2 * k + Fin 2 * k + k) = a"
proof -
  obtain x where k: "k = Fin x" "\<bar>x\<bar> \<le> 2 ^ 1000"
    using assms(1) by (auto simp: magnitude_le_iff)
  obtain y where a: "a = Fin y" "is_double y" using assms(2) by (auto simp: finite_double_iff)
  obtain z where z: "Fin x + Fin 2 * Fin x + Fin 2 * Fin x + Fin x = Fin z"
    using weighted_sum_finite [OF k(2)] by blast
  show ?thesis
    by (simp add: k(1) a(1) z) (simp add: number_ops rnd_0 rnd_exact [OF a(2)])
qed

lemma integrateRK4Step_f_zero_dt_NaN:
  assumes "dOmega1_f (getDerivatives_f st ps) = NaN"
  shows "omega1_f (integrateRK4Step_f st ps (Fin 0)) = NaN"
proof -
  have "Fin 0 / Fin 6 * NaN = NaN" by (simp add: number_ops rnd_0)
  moreover have "NaN + b = NaN" for b by (simp add: number_ops)
  ultimately show ?thesis
    by (simp add: integrateRK4Step_f_def Let_def assms fadd_NaN_right)
qed

lemma getDerivatives_f_slowState:
  "getDerivatives_f slowState DEFAULT_PARAMS_f
     = \<lparr>dTheta1_f = Fin 1, dTheta2_f = Fin 2, dOmega1_f = Fin 0, dOmega2_f = Fin 0\<rparr>"
  by (simp add: getDerivatives_f_def alpha1_f_def alpha2_f_def num1_f_def num2_f_def den1_f_def
      den2_f_def delta_f_def slowState_def DEFAULT_PARAMS_f_def number_simps rnd_neg_numeral)

text \<open>
  C7, as the code computes it. For every state of finite doubles and all parameters, if
  the four derivatives that \<^verbatim>\<open>getDerivatives\<close> computes at the state are finite and of
  magnitude at most \<open>2^1000\<close>, then \<^verbatim>\<open>integrateRK4Step(state, params, 0)\<close> returns the
  input state in all four components: each increment is a finite number times 0, every
  intermediate state is the input state, and the weighted sum of the derivatives does not
  overflow.
\<close>

theorem integrateRK4Step_zero_step_binary64:
  assumes st: "finite_double (theta1_f st)" "finite_double (theta2_f st)"
      "finite_double (omega1_f st)" "finite_double (omega2_f st)"
    and k: "magnitude_le (2 ^ 1000) (dTheta1_f (getDerivatives_f st ps))"
      "magnitude_le (2 ^ 1000) (dTheta2_f (getDerivatives_f st ps))"
      "magnitude_le (2 ^ 1000) (dOmega1_f (getDerivatives_f st ps))"
      "magnitude_le (2 ^ 1000) (dOmega2_f (getDerivatives_f st ps))"
  shows "theta1_f (integrateRK4Step_f st ps (Fin 0)) = theta1_f st
       \<and> theta2_f (integrateRK4Step_f st ps (Fin 0)) = theta2_f st
       \<and> omega1_f (integrateRK4Step_f st ps (Fin 0)) = omega1_f st
       \<and> omega2_f (integrateRK4Step_f st ps (Fin 0)) = omega2_f st
       \<and> integrateRK4Step_f st ps (Fin 0) = st"
proof -
  define k1 where "k1 = getDerivatives_f st ps"
  note k' = k [folded k1_def]
  have s2: "\<lparr>theta1_f = theta1_f st + dTheta1_f k1 * Fin 0 * Fin 0.5,
            theta2_f = theta2_f st + dTheta2_f k1 * Fin 0 * Fin 0.5,
            omega1_f = omega1_f st + dOmega1_f k1 * Fin 0 * Fin 0.5,
            omega2_f = omega2_f st + dOmega2_f k1 * Fin 0 * Fin 0.5\<rparr> = st"
    unfolding zero_increment_half [OF k'(1) st(1)] zero_increment_half [OF k'(2) st(2)]
        zero_increment_half [OF k'(3) st(3)] zero_increment_half [OF k'(4) st(4)]
    by simp
  have s4: "\<lparr>theta1_f = theta1_f st + dTheta1_f k1 * Fin 0,
            theta2_f = theta2_f st + dTheta2_f k1 * Fin 0,
            omega1_f = omega1_f st + dOmega1_f k1 * Fin 0,
            omega2_f = omega2_f st + dOmega2_f k1 * Fin 0\<rparr> = st"
    unfolding zero_increment [OF k'(1) st(1)] zero_increment [OF k'(2) st(2)]
        zero_increment [OF k'(3) st(3)] zero_increment [OF k'(4) st(4)]
    by simp
  have r: "\<lparr>theta1_f = theta1_f st
              + (Fin 0 / Fin 6) * (dTheta1_f k1 + Fin 2 * dTheta1_f k1 + Fin 2 * dTheta1_f k1 + dTheta1_f k1),
           theta2_f = theta2_f st
              + (Fin 0 / Fin 6) * (dTheta2_f k1 + Fin 2 * dTheta2_f k1 + Fin 2 * dTheta2_f k1 + dTheta2_f k1),
           omega1_f = omega1_f st
              + (Fin 0 / Fin 6) * (dOmega1_f k1 + Fin 2 * dOmega1_f k1 + Fin 2 * dOmega1_f k1 + dOmega1_f k1),
           omega2_f = omega2_f st
              + (Fin 0 / Fin 6) * (dOmega2_f k1 + Fin 2 * dOmega2_f k1 + Fin 2 * dOmega2_f k1 + dOmega2_f k1)\<rparr>
         = st"
    unfolding zero_weighted_sum [OF k'(1) st(1)] zero_weighted_sum [OF k'(2) st(2)]
        zero_weighted_sum [OF k'(3) st(3)] zero_weighted_sum [OF k'(4) st(4)]
    by simp
  have "integrateRK4Step_f st ps (Fin 0) = st"
    unfolding integrateRK4Step_f_def Let_def k1_def [symmetric] s2 s4 r ..
  then show ?thesis by simp
qed

theorem integrateRK4Step_zero_step_binary64_witness:
  "finite_double (theta1_f slowState) \<and> finite_double (theta2_f slowState)
   \<and> finite_double (omega1_f slowState) \<and> finite_double (omega2_f slowState)
   \<and> getDerivatives_f slowState DEFAULT_PARAMS_f
       = \<lparr>dTheta1_f = Fin 1, dTheta2_f = Fin 2, dOmega1_f = Fin 0, dOmega2_f = Fin 0\<rparr>
   \<and> integrateRK4Step_f slowState DEFAULT_PARAMS_f (Fin 0) = slowState"
  using integrateRK4Step_zero_step_binary64 [of slowState DEFAULT_PARAMS_f]
  by (simp add: getDerivatives_f_slowState)
    (simp add: slowState_def finite_double_def magnitude_le_def is_double_0 is_double_1
      is_double_numeral)

lemma fastState_num1: "num1_f fastState DEFAULT_PARAMS_f = NaN"
proof -
  have "rnd (2 ^ 512 * 2 ^ 512) = PInf"
    by (rule rnd_overflow) (simp add: power_add [symmetric])
  then show ?thesis
    by (simp add: num1_f_def delta_f_def fastState_def DEFAULT_PARAMS_f_def number_simps
        rnd_neg_numeral)
qed

text \<open>
  C7 as stated fails. With \<^verbatim>\<open>DEFAULT_PARAMS\<close> (\<open>l1\<close>, \<open>l2\<close>, \<open>m1\<close>, \<open>m2\<close> all
  positive) and the state \<open>{theta1: 0, theta2: 0, omega1: 2^512, omega2: 0}\<close> of finite
  doubles, \<open>omega1 * omega1\<close> overflows to \<^verbatim>\<open>Infinity\<close>; its product with
  \<open>2 * sin(delta) * m2 = 0\<close> is NaN, so \<open>alpha1\<close> is NaN, and the step of length 0
  returns NaN for \<open>omega1\<close>.
\<close>

theorem integrateRK4Step_zero_step_NaN_counterexample:
  "finite_double (theta1_f fastState) \<and> finite_double (theta2_f fastState)
   \<and> finite_double (omega1_f fastState) \<and> finite_double (omega2_f fastState)
   \<and> Fin 0 < l1_f DEFAULT_PARAMS_f \<and> Fin 0 < l2_f DEFAULT_PARAMS_f
   \<and> Fin 0 < m1_f DEFAULT_PARAMS_f \<and> Fin 0 < m2_f DEFAULT_PARAMS_f
   \<and> omega1_f (integrateRK4Step_f fastState DEFAULT_PARAMS_f (Fin 0)) = NaN
   \<and> omega1_f (integrateRK4Step_f fastState DEFAULT_PARAMS_f (Fin 0)) \<noteq> omega1_f fastState"
proof -
  have "dOmega1_f (getDerivatives_f fastState DEFAULT_PARAMS_f) = NaN"
    by (simp add: getDerivatives_f_def alpha1_f_def fastState_num1 number_ops)
  then have nan: "omega1_f (integrateRK4Step_f fastState DEFAULT_PARAMS_f (Fin 0)) = NaN"
    by (rule integrateRK4Step_f_zero_dt_NaN)
  have d: "is_double (2 ^ 512)" by (rule is_double_pow2) simp
  have "finite_double (omega1_f fastState)"
    unfolding fastState_def finite_double_def using d by simp
  then show ?thesis
    using nan
    by (simp add: DEFAULT_PARAMS_f_def less_number_def)
      (simp add: fastState_def finite_double_def is_double_0)
qed

subsection \<open>The rest state\<close>

lemma getDerivatives_zeroState:
  "getDerivatives zeroState FRACTAL_PARAMS
     = \<lparr>dTheta1 = 0, dTheta2 = 0, dOmega1 = 0, dOmega2 = 0\<rparr>"
  by (simp add: getDerivatives_def zeroState_def alpha1_def alpha2_def num1_def num2_def
      delta_def)

lemma integrateRK4Step_zeroState: "integrateRK4Step zeroState FRACTAL_PARAMS dt = zeroState"
proof -
  have fold_zero: "\<lparr>theta1 = 0, theta2 = 0, omega1 = 0, omega2 = 0\<rparr> = zeroState"
    by (simp add: zeroState_def)
  have sel: "theta1 zeroState = 0" "theta2 zeroState = 0" "omega1 zeroState = 0"
    "omega2 zeroState = 0"
    by (simp_all add: zeroState_def)
  show ?thesis
    unfolding integrateRK4Step_def Let_def
    by (simp add: getDerivatives_zeroState sel fold_zero)
qed

text \<open>The divisors at the rest state with the chaos-map parameters are both \<open>2\<close>.\<close>

lemma zeroState_divisors:
  "l1 FRACTAL_PARAMS * den1 zeroState FRACTAL_PARAMS = 2
   \<and> l2 FRACTAL_PARAMS * den2 zeroState FRACTAL_PARAMS = 2"
  by (simp add: FRACTAL_PARAMS_def zeroState_def den1_def den2_def)

text \<open>
  C6. With the parameters \<open>{l1: 1, l2: 1, m1: 1, m2: 1, g: 9.81}\<close> the state
  \<open>{theta1: 0, theta2: 0, omega1: 0, omega2: 0}\<close> is an exact fixed point of
  \<^verbatim>\<open>integrateRK4Step\<close>: for every step \<open>dt\<close>, one application returns the all-zero
  state, and so does any number of repeated applications, with the same step
  (\<open>n\<close> applications with \<open>dt\<close>) or with a different step at each application
  (the steps \<open>dts\<close>, in order).
\<close>

theorem integrateRK4Step_zero_fixed_point:
  "integrateRK4Step \<lparr>theta1 = 0, theta2 = 0, omega1 = 0, omega2 = 0\<rparr>
       \<lparr>l1 = 1, l2 = 1, m1 = 1, m2 = 1, g = 9.81\<rparr> dt
     = \<lparr>theta1 = 0, theta2 = 0, omega1 = 0, omega2 = 0\<rparr>
   \<and> ((\<lambda>st. integrateRK4Step st \<lparr>l1 = 1, l2 = 1, m1 = 1, m2 = 1, g = 9.81\<rparr> dt) ^^ n)
       \<lparr>theta1 = 0, theta2 = 0, omega1 = 0, omega2 = 0\<rparr>
     = \<lparr>theta1 = 0, theta2 = 0, omega1 = 0, omega2 = 0\<rparr>
   \<and> foldl (\<lambda>st d. integrateRK4Step st \<lparr>l1 = 1, l2 = 1, m1 = 1, m2 = 1, g = 9.81\<rparr> d)
       \<lparr>theta1 = 0, theta2 = 0, omega1 = 0, omega2 = 0\<rparr> dts
     = \<lparr>theta1 = 0, theta2 = 0, omega1 = 0, omega2 = 0\<rparr>"
proof -
  have ps: "\<lparr>l1 = 1, l2 = 1, m1 = 1, m2 = 1, g = 9.81\<rparr> = FRACTAL_PARAMS"
    by (simp add: FRACTAL_PARAMS_def)
  have st: "\<lparr>theta1 = 0, theta2 = 0, omega1 = 0, omega2 = 0\<rparr> = zeroState"
    by (simp add: zeroState_def)
  have pow: "((\<lambda>st. integrateRK4Step st FRACTAL_PARAMS dt) ^^ n) zeroState = zeroState"
    by (induction n) (simp_all add: integrateRK4Step_zeroState)
  have fold: "foldl (\<lambda>st d. integrateRK4Step st FRACTAL_PARAMS d) zeroState dts = zeroState"
    by (induction dts) (simp_all add: integrateRK4Step_zeroState)
  show ?thesis
    unfolding ps st using pow fold by (simp add: integrateRK4Step_zeroState)
qed

section \<open>The simulation actor: frames and resets\<close>

subsection \<open>The subscribers form a set\<close>

text \<open>
  The list that stands for the \<^verbatim>\<open>Set\<close> of subscribers has no element twice: this
  holds after the constructor and is kept by every method.
\<close>

lemma distinct_set_add: "distinct cbs \<Longrightarrow> distinct (set_add cb cbs)"
  by (simp add: set_add_def)

lemma distinct_set_delete: "distinct cbs \<Longrightarrow> distinct (set_delete cb cbs)"
  by (simp add: set_delete_def)

lemma subscribers_constructor: "distinct (subscribers (constructor initial ps))"
  by (simp add: constructor_def)

lemma subscribers_subscribe:
  "distinct (subscribers sim) \<Longrightarrow> distinct (subscribers (subscribe cb sim))"
  by (simp add: subscribe_def distinct_set_add)

lemma subscribers_unsubscribe:
  "distinct (subscribers sim) \<Longrightarrow> distinct (subscribers (unsubscribe cb sim))"
  by (simp add: unsubscribe_def distinct_set_delete)

lemma subscribers_unchanged:
  "subscribers (addResetListener cb sim) = subscribers sim"
  "subscribers (removeResetListener cb sim) = subscribers sim"
  "subscribers (multiplySpeed factor sim) = subscribers sim"
  "subscribers (fst (stop sim)) = subscribers sim"
  "subscribers (fst (loop handle sim)) = subscribers sim"
  "subscribers (fst (start handle sim)) = subscribers sim"
  by (simp_all add: addResetListener_def removeResetListener_def multiplySpeed_def stop_def
      loop_def start_def Let_def case_prod_beta split: option.splits)

subsection \<open>One frame\<close>

lemma forSteps_length:
  "length (snd (forSteps i steps ps dt st history)) = length history + nat (steps - i)"
proof (induction i steps ps dt st history rule: forSteps.induct)
  case (1 i steps ps dt st history)
  show ?case
  proof (cases "i < steps")
    case True
    then have "nat (steps - i) = Suc (nat (steps - (i + 1)))" by simp
    with True 1 show ?thesis
      by (subst forSteps.simps) (simp add: Let_def)
  next
    case False
    then show ?thesis by (subst forSteps.simps) simp
  qed
qed

lemma chained_snoc:
  assumes "chained ps dt xs" and "xs \<noteq> []"
  shows "chained ps dt (xs @ [integrateRK4Step (last xs) ps dt])"
  unfolding chained_def
proof (intro allI impI)
  fix k assume k: "k < length (xs @ [integrateRK4Step (last xs) ps dt]) - 1"
  show "(xs @ [integrateRK4Step (last xs) ps dt]) ! Suc k =
          integrateRK4Step ((xs @ [integrateRK4Step (last xs) ps dt]) ! k) ps dt"
  proof (cases "k < length xs - 1")
    case True
    with assms(1) show ?thesis by (simp add: chained_def nth_append)
  next
    case False
    with k have "k = length xs - 1" and "k < length xs" by simp_all
    then show ?thesis using assms(2) by (simp add: nth_append last_conv_nth)
  qed
qed

lemma forSteps_invariant:
  assumes "history \<noteq> []" and "last history = st" and "chained ps dt history"
  shows "chained ps dt (snd (forSteps i steps ps dt st history))
       \<and> snd (forSteps i steps ps dt st history) \<noteq> []
       \<and> last (snd (forSteps i steps ps dt st history)) = fst (forSteps i steps ps dt st history)
       \<and> snd (forSteps i steps ps dt st history) ! 0 = history ! 0"
  using assms
proof (induction i steps ps dt st history rule: forSteps.induct)
  case (1 i steps ps dt st history)
  show ?case
  proof (cases "i < steps")
    case True
    let ?st = "integrateRK4Step st ps dt"
    have ch: "chained ps dt (history @ [?st])"
      using chained_snoc [OF "1.prems"(3) "1.prems"(1)] "1.prems"(2) by simp
    have ih: "chained ps dt (snd (forSteps (i + 1) steps ps dt ?st (history @ [?st])))
       \<and> snd (forSteps (i + 1) steps ps dt ?st (history @ [?st])) \<noteq> []
       \<and> last (snd (forSteps (i + 1) steps ps dt ?st (history @ [?st])))
           = fst (forSteps (i + 1) steps ps dt ?st (history @ [?st]))
       \<and> snd (forSteps (i + 1) steps ps dt ?st (history @ [?st])) ! 0 = (history @ [?st]) ! 0"
      by (rule "1.IH" [OF True refl]) (simp_all add: ch)
    have unf: "forSteps i steps ps dt st history = forSteps (i + 1) steps ps dt ?st (history @ [?st])"
      using True by (subst forSteps.simps) (simp add: Let_def)
    from ih "1.prems"(1) show ?thesis unfolding unf by (simp add: nth_append)
  next
    case False
    then have "forSteps i steps ps dt st history = (st, history)"
      by (subst forSteps.simps) simp
    with "1.prems" show ?thesis by simp
  qed
qed

lemma loop_running:
  assumes "isRunning sim"
  shows "loop handle sim =
     (sim\<lparr>state := fst (forSteps 0 (frameSteps sim) (params sim) 0.01 (state sim) [state sim]),
          animationFrameId := Some handle\<rparr>,
      map (\<lambda>cb. Notified cb (snd (forSteps 0 (frameSteps sim) (params sim) 0.01 (state sim) [state sim])))
        (subscribers sim) @ [RequestedAnimationFrame handle])"
  using assms by (simp add: loop_def Let_def frameSteps_def notify_def split: prod.splits)

lemma count_list_map_inj:
  assumes "inj f"
  shows "count_list (map f xs) (f x) = count_list xs x"
  using assms by (induction xs) (auto simp: inj_def)

lemma count_list_distinct: "distinct xs \<Longrightarrow> x \<in> set xs \<Longrightarrow> count_list xs x = 1"
  by (induction xs) (auto simp: count_list_0_iff)

text \<open>
  C2. For every frame of the running actor (a call of \<^verbatim>\<open>loop\<close> while
  \<^verbatim>\<open>isRunning\<close>), the number of integration steps is
  \<open>steps = max(1, round(40 * speedMultiplier))\<close> and the step is \<open>0.01\<close>; the history has
  \<open>steps + 1\<close> elements, its first element is the state at the start of the frame, and
  each later element is \<^verbatim>\<open>integrateRK4Step\<close> of the element before; every subscriber
  is called exactly once, with that history, and nothing else is delivered to a
  subscriber; the live state after the frame is the last element.
\<close>

theorem loop_frame:
  assumes "isRunning sim" and "distinct (subscribers sim)"
  shows "\<exists>history.
      snd (loop handle sim)
        = map (\<lambda>cb. Notified cb history) (subscribers sim) @ [RequestedAnimationFrame handle]
    \<and> (\<forall>cb \<in> set (subscribers sim). count_list (snd (loop handle sim)) (Notified cb history) = 1)
    \<and> (\<forall>cb h. Notified cb h \<in> set (snd (loop handle sim)) \<longrightarrow> cb \<in> set (subscribers sim) \<and> h = history)
    \<and> length history = nat (max 1 (Math_round (40 * speedMultiplier sim))) + 1
    \<and> history ! 0 = state sim
    \<and> (\<forall>i. i < nat (max 1 (Math_round (40 * speedMultiplier sim)))
          \<longrightarrow> history ! (i + 1) = integrateRK4Step (history ! i) (params sim) 0.01)
    \<and> state (fst (loop handle sim)) = last history"
proof -
  define steps where "steps = frameSteps sim"
  define run where "run = forSteps 0 steps (params sim) 0.01 (state sim) [state sim]"
  have steps_eq: "steps = max 1 (Math_round (40 * speedMultiplier sim))"
    by (simp add: steps_def frameSteps_def baseStepsPerFrame_def)
  have lp: "loop handle sim =
     (sim\<lparr>state := fst run, animationFrameId := Some handle\<rparr>,
      map (\<lambda>cb. Notified cb (snd run)) (subscribers sim) @ [RequestedAnimationFrame handle])"
    unfolding run_def steps_def by (rule loop_running [OF assms(1)])
  have len: "length (snd run) = nat steps + 1"
    unfolding run_def by (simp add: forSteps_length)
  have inv: "chained (params sim) 0.01 (snd run) \<and> snd run \<noteq> []
       \<and> last (snd run) = fst run \<and> snd run ! 0 = [state sim] ! 0"
    unfolding run_def by (rule forSteps_invariant) (simp_all add: chained_def)
  have chain: "\<forall>i. i < nat steps \<longrightarrow> snd run ! (i + 1) = integrateRK4Step (snd run ! i) (params sim) 0.01"
    using inv len by (simp add: chained_def)
  have inj: "inj (\<lambda>cb. Notified cb (snd run))"
    by (simp add: inj_def)
  have once: "\<forall>cb \<in> set (subscribers sim). count_list (snd (loop handle sim)) (Notified cb (snd run)) = 1"
    using assms(2) by (simp add: lp count_list_map_inj [OF inj] count_list_distinct)
  have only: "\<forall>cb h. Notified cb h \<in> set (snd (loop handle sim)) \<longrightarrow> cb \<in> set (subscribers sim) \<and> h = snd run"
    by (auto simp: lp)
  show ?thesis
  proof (intro exI [of _ "snd run"] conjI)
    show "snd (loop handle sim)
        = map (\<lambda>cb. Notified cb (snd run)) (subscribers sim) @ [RequestedAnimationFrame handle]"
      by (simp add: lp)
    show "\<forall>cb \<in> set (subscribers sim). count_list (snd (loop handle sim)) (Notified cb (snd run)) = 1"
      by (rule once)
    show "\<forall>cb h. Notified cb h \<in> set (snd (loop handle sim)) \<longrightarrow> cb \<in> set (subscribers sim) \<and> h = snd run"
      by (rule only)
    show "length (snd run) = nat (max 1 (Math_round (40 * speedMultiplier sim))) + 1"
      using len by (simp only: steps_eq)
    show "snd run ! 0 = state sim"
      using inv by simp
    show "\<forall>i. i < nat (max 1 (Math_round (40 * speedMultiplier sim)))
          \<longrightarrow> snd run ! (i + 1) = integrateRK4Step (snd run ! i) (params sim) 0.01"
      using chain by (simp only: steps_eq)
    show "state (fst (loop handle sim)) = last (snd run)"
      using inv by (simp add: lp)
  qed
qed

theorem loop_frame_witness:
  "isRunning ((subscribe 3 (subscribe 5 newPendulumSimulation))\<lparr>isRunning := True\<rparr>)
   \<and> distinct (subscribers ((subscribe 3 (subscribe 5 newPendulumSimulation))\<lparr>isRunning := True\<rparr>))
   \<and> (\<exists>history.
         snd (loop 1 ((subscribe 3 (subscribe 5 newPendulumSimulation))\<lparr>isRunning := True\<rparr>))
           = [Notified 5 history, Notified 3 history, RequestedAnimationFrame 1]
       \<and> length history = 41
       \<and> history ! 0 = INITIAL_STATE
       \<and> history ! 1 = integrateRK4Step INITIAL_STATE DEFAULT_PARAMS 0.01)"
proof -
  define sim where "sim = (subscribe 3 (subscribe 5 newPendulumSimulation))\<lparr>isRunning := True\<rparr>"
  have subs: "subscribers sim = [5, 3]"
    by (simp add: sim_def subscribe_def set_add_def newPendulumSimulation_def constructor_def)
  have fields: "isRunning sim" "state sim = INITIAL_STATE" "params sim = DEFAULT_PARAMS"
    "speedMultiplier sim = 1"
    by (simp_all add: sim_def subscribe_def newPendulumSimulation_def constructor_def)
  have steps: "nat (max 1 (Math_round (40 * speedMultiplier sim))) = 40"
    by (simp add: fields Math_round_def)
  have dist: "distinct (subscribers sim)"
    by (simp add: subs)
  from loop_frame [OF fields(1) dist, of 1] obtain history where
    h: "snd (loop 1 sim) = map (\<lambda>cb. Notified cb history) (subscribers sim) @ [RequestedAnimationFrame 1]"
      "length history = nat (max 1 (Math_round (40 * speedMultiplier sim))) + 1"
      "history ! 0 = state sim"
      "\<forall>i. i < nat (max 1 (Math_round (40 * speedMultiplier sim)))
          \<longrightarrow> history ! (i + 1) = integrateRK4Step (history ! i) (params sim) 0.01"
    by blast
  from h(4) have "history ! (0 + 1) = integrateRK4Step (history ! 0) (params sim) 0.01"
    unfolding steps by simp
  with h(1,2,3) have "snd (loop 1 sim) = [Notified 5 history, Notified 3 history, RequestedAnimationFrame 1]
       \<and> length history = 41
       \<and> history ! 0 = INITIAL_STATE
       \<and> history ! 1 = integrateRK4Step INITIAL_STATE DEFAULT_PARAMS 0.01"
    by (simp add: subs fields Math_round_def)
  then show ?thesis
    using fields(1) dist unfolding sim_def by blast
qed

lemma stop_fields:
  "isRunning (fst (stop sim)) = False" "animationFrameId (fst (stop sim)) = None"
  "state (fst (stop sim)) = state sim" "initialState (fst (stop sim)) = initialState sim"
  "params (fst (stop sim)) = params sim" "subscribers (fst (stop sim)) = subscribers sim"
  "resetListeners (fst (stop sim)) = resetListeners sim"
  "speedMultiplier (fst (stop sim)) = speedMultiplier sim"
  by (simp_all add: stop_def split: option.splits)

lemma start_stopped: "\<not> isRunning sim \<Longrightarrow> start handle sim = loop handle (sim\<lparr>isRunning := True\<rparr>)"
  by (simp add: start_def)

lemma reset_unfold:
  "reset t1 t2 w1 w2 u1 u2 handle sim =
     (let new = resetState t1 t2 w1 w2 u1 u2 sim;
          run = forSteps 0 (frameSteps sim) (params sim) 0.01 new [new]
      in ((fst (stop sim))\<lparr>state := fst run, initialState := new, isRunning := True,
             animationFrameId := Some handle\<rparr>,
          snd (stop sim) @ map ResetNotified (resetListeners sim)
            @ map (\<lambda>cb. Notified cb [new]) (subscribers sim)
            @ map (\<lambda>cb. Notified cb (snd run)) (subscribers sim)
            @ [RequestedAnimationFrame handle]))"
proof -
  obtain sim1 stopped where st: "stop sim = (sim1, stopped)" by (cases "stop sim")
  have f: "isRunning sim1 = False" "animationFrameId sim1 = None"
    "state sim1 = state sim" "initialState sim1 = initialState sim"
    "params sim1 = params sim" "subscribers sim1 = subscribers sim"
    "resetListeners sim1 = resetListeners sim" "speedMultiplier sim1 = speedMultiplier sim"
    using stop_fields [of sim] by (simp_all add: st)
  define new where "new = resetState t1 t2 w1 w2 u1 u2 sim"
  define sim3 where "sim3 = sim1\<lparr>state := new, initialState := new\<rparr>"
  have r: "reset t1 t2 w1 w2 u1 u2 handle sim =
     (fst (start handle sim3),
      stopped @ map ResetNotified (resetListeners sim3) @ notify sim3 [state sim3]
        @ snd (start handle sim3))"
  proof (cases "t1 = None \<and> t2 = None \<and> w1 = None \<and> w2 = None")
    case True
    show ?thesis
      unfolding reset_def st sim3_def new_def resetState_def if_P [OF True]
      by (simp add: Let_def case_prod_beta)
  next
    case False
    show ?thesis
      unfolding reset_def st sim3_def new_def resetState_def if_not_P [OF False]
      by (simp add: Let_def case_prod_beta f(4) cong: option.case_cong)
  qed
  have s3: "\<not> isRunning sim3" "state sim3 = new" "params sim3 = params sim"
    "subscribers sim3 = subscribers sim" "resetListeners sim3 = resetListeners sim"
    "speedMultiplier sim3 = speedMultiplier sim"
    by (simp_all add: sim3_def f)
  have lp: "start handle sim3 = loop handle (sim3\<lparr>isRunning := True\<rparr>)"
    by (rule start_stopped) (rule s3(1))
  have "loop handle (sim3\<lparr>isRunning := True\<rparr>) =
     (sim3\<lparr>isRunning := True,
          state := fst (forSteps 0 (frameSteps sim) (params sim) 0.01 new [new]),
          animationFrameId := Some handle\<rparr>,
      map (\<lambda>cb. Notified cb (snd (forSteps 0 (frameSteps sim) (params sim) 0.01 new [new])))
        (subscribers sim) @ [RequestedAnimationFrame handle])"
    by (subst loop_running) (simp_all add: s3 frameSteps_def)
  then show ?thesis
    unfolding r lp Let_def new_def [symmetric]
    by (simp add: s3 notify_def sim3_def st f)
qed

subsection \<open>Resetting\<close>

lemma reset_parts:
  "initialState (fst (reset t1 t2 w1 w2 u1 u2 handle sim)) = resetState t1 t2 w1 w2 u1 u2 sim"
  "state (fst (reset t1 t2 w1 w2 u1 u2 handle sim))
     = fst (forSteps 0 (frameSteps sim) (params sim) 0.01
         (resetState t1 t2 w1 w2 u1 u2 sim) [resetState t1 t2 w1 w2 u1 u2 sim])"
  "snd (reset t1 t2 w1 w2 u1 u2 handle sim)
     = snd (stop sim) @ map ResetNotified (resetListeners sim)
       @ map (\<lambda>cb. Notified cb [resetState t1 t2 w1 w2 u1 u2 sim]) (subscribers sim)
       @ map (\<lambda>cb. Notified cb (snd (forSteps 0 (frameSteps sim) (params sim) 0.01
             (resetState t1 t2 w1 w2 u1 u2 sim) [resetState t1 t2 w1 w2 u1 u2 sim])))
           (subscribers sim)
       @ [RequestedAnimationFrame handle]"
  "isRunning (fst (reset t1 t2 w1 w2 u1 u2 handle sim))"
  "subscribers (fst (reset t1 t2 w1 w2 u1 u2 handle sim)) = subscribers sim"
  by (simp_all add: reset_unfold Let_def stop_fields)

text \<open>
  C3, as the code has it. For every actor and every call of \<^verbatim>\<open>reset\<close> with at least
  one argument supplied, the new initial state has each supplied component equal to the
  argument and each omitted component equal to that component of the initial state before
  the call, so \<^verbatim>\<open>reset(theta1=X)\<close> followed by \<^verbatim>\<open>getInitialState()\<close> yields
  \<open>X\<close> with the three previous components. That state is delivered to every subscriber as
  the only element of the history of the reset notification. The live state after the
  call is not that state: \<^verbatim>\<open>reset\<close> ends with \<^verbatim>\<open>start()\<close>, which runs one frame
  of the loop at once, so the live state is that state advanced by the integration steps
  of one frame, and the subscribers receive the history of that frame next.
\<close>

theorem reset_partial:
  fixes t1 t2 w1 w2 :: "real option" and u1 u2 :: real and handle :: nat
    and sim :: PendulumSimulation
  defines "r \<equiv> reset t1 t2 w1 w2 u1 u2 handle sim"
  defines "new \<equiv> getInitialState (fst r)"
  assumes "t1 \<noteq> None \<or> t2 \<noteq> None \<or> w1 \<noteq> None \<or> w2 \<noteq> None"
  shows "new = \<lparr>theta1 = (case t1 of Some v \<Rightarrow> v | None \<Rightarrow> theta1 (getInitialState sim)),
               theta2 = (case t2 of Some v \<Rightarrow> v | None \<Rightarrow> theta2 (getInitialState sim)),
               omega1 = (case w1 of Some v \<Rightarrow> v | None \<Rightarrow> omega1 (getInitialState sim)),
               omega2 = (case w2 of Some v \<Rightarrow> v | None \<Rightarrow> omega2 (getInitialState sim))\<rparr>
       \<and> snd r = snd (stop sim) @ map ResetNotified (resetListeners sim)
           @ map (\<lambda>cb. Notified cb [new]) (subscribers sim)
           @ map (\<lambda>cb. Notified cb
                 (snd (forSteps 0 (frameSteps sim) (params sim) 0.01 new [new]))) (subscribers sim)
           @ [RequestedAnimationFrame handle]
       \<and> getState (fst r) = fst (forSteps 0 (frameSteps sim) (params sim) 0.01 new [new])
       \<and> isRunning (fst r)"
proof -
  have some: "\<not> (t1 = None \<and> t2 = None \<and> w1 = None \<and> w2 = None)"
    using assms(3) by blast
  have new: "new = resetState t1 t2 w1 w2 u1 u2 sim"
    by (simp add: new_def r_def getInitialState_def reset_parts(1))
  have "resetState t1 t2 w1 w2 u1 u2 sim =
          \<lparr>theta1 = (case t1 of Some v \<Rightarrow> v | None \<Rightarrow> theta1 (getInitialState sim)),
           theta2 = (case t2 of Some v \<Rightarrow> v | None \<Rightarrow> theta2 (getInitialState sim)),
           omega1 = (case w1 of Some v \<Rightarrow> v | None \<Rightarrow> omega1 (getInitialState sim)),
           omega2 = (case w2 of Some v \<Rightarrow> v | None \<Rightarrow> omega2 (getInitialState sim))\<rparr>"
    unfolding resetState_def getInitialState_def by (rule if_not_P [OF some])
  then show ?thesis
    unfolding new [symmetric]
    by (simp add: new r_def getState_def reset_parts)
qed

theorem reset_partial_witness:
  "Some (1 :: real) \<noteq> None
   \<and> getInitialState (fst (reset (Some 1) None None None 0 0 7 (subscribe 5 newPendulumSimulation)))
       = \<lparr>theta1 = 1, theta2 = pi / 2 + 1, omega1 = 0, omega2 = 0\<rparr>
   \<and> take 1 (snd (reset (Some 1) None None None 0 0 7 (subscribe 5 newPendulumSimulation)))
       = [Notified 5 [\<lparr>theta1 = 1, theta2 = pi / 2 + 1, omega1 = 0, omega2 = 0\<rparr>]]"
  using reset_partial [of "Some 1" None None None 0 0 7 "subscribe 5 newPendulumSimulation"]
  by (simp add: getInitialState_def subscribe_def set_add_def newPendulumSimulation_def
      constructor_def INITIAL_STATE_def stop_def)

text \<open>
  C8, as the code has it. For every call of \<^verbatim>\<open>reset()\<close> without arguments and all
  values \<open>u1\<close>, \<open>u2\<close> of the two random draws (in \<open>[0, 1)\<close>), the new initial state has
  \<open>omega1 = 0\<close>, \<open>omega2 = 0\<close>, \<open>theta1 = pi/2 + (u1 * 0.5 - 0.25)\<close> within
  \<open>[pi/2 - 0.25, pi/2 + 0.25]\<close> and \<open>theta2 = pi/2 + 1 + (u2 * 0.5 - 0.25)\<close> within
  \<open>[pi/2 + 1 - 0.25, pi/2 + 1 + 0.25]\<close>; it is the only element of the history of the
  reset notification. The live state after the call is that state advanced by the
  integration steps of the frame that the restarted loop runs at once.
\<close>

theorem reset_random:
  fixes u1 u2 :: real and handle :: nat and sim :: PendulumSimulation
  defines "r \<equiv> reset None None None None u1 u2 handle sim"
  defines "new \<equiv> getInitialState (fst r)"
  assumes "0 \<le> u1" and "u1 < 1" and "0 \<le> u2" and "u2 < 1"
  shows "new
           = \<lparr>theta1 = pi / 2 + (u1 * 0.5 - 0.25), theta2 = pi / 2 + 1 + (u2 * 0.5 - 0.25),
              omega1 = 0, omega2 = 0\<rparr>
       \<and> omega1 new = 0 \<and> omega2 new = 0
       \<and> pi / 2 - 0.25 \<le> theta1 new
       \<and> theta1 new \<le> pi / 2 + 0.25
       \<and> pi / 2 + 1 - 0.25 \<le> theta2 new
       \<and> theta2 new \<le> pi / 2 + 1 + 0.25
       \<and> snd r = snd (stop sim) @ map ResetNotified (resetListeners sim)
           @ map (\<lambda>cb. Notified cb [new]) (subscribers sim)
           @ map (\<lambda>cb. Notified cb
                 (snd (forSteps 0 (frameSteps sim) (params sim) 0.01
                    new [new]))) (subscribers sim)
           @ [RequestedAnimationFrame handle]
       \<and> getState (fst r)
           = fst (forSteps 0 (frameSteps sim) (params sim) 0.01
               new [new])"
proof -
  have new: "new = resetState None None None None u1 u2 sim"
    by (simp add: new_def r_def getInitialState_def reset_parts(1))
  have val: "resetState None None None None u1 u2 sim
           = \<lparr>theta1 = pi / 2 + (u1 * 0.5 - 0.25), theta2 = pi / 2 + 1 + (u2 * 0.5 - 0.25),
              omega1 = 0, omega2 = 0\<rparr>"
    by (simp add: resetState_def)
  have bounds: "pi / 2 - 0.25 \<le> pi / 2 + (u1 * 0.5 - 0.25)"
    "pi / 2 + (u1 * 0.5 - 0.25) \<le> pi / 2 + 0.25"
    "pi / 2 + 1 - 0.25 \<le> pi / 2 + 1 + (u2 * 0.5 - 0.25)"
    "pi / 2 + 1 + (u2 * 0.5 - 0.25) \<le> pi / 2 + 1 + 0.25"
    using assms(3-6) by simp_all
  have rest: "snd r = snd (stop sim) @ map ResetNotified (resetListeners sim)
           @ map (\<lambda>cb. Notified cb [new]) (subscribers sim)
           @ map (\<lambda>cb. Notified cb
                 (snd (forSteps 0 (frameSteps sim) (params sim) 0.01
                    new [new]))) (subscribers sim)
           @ [RequestedAnimationFrame handle]
       \<and> getState (fst r)
           = fst (forSteps 0 (frameSteps sim) (params sim) 0.01
               new [new])"
    unfolding new by (simp add: r_def getState_def reset_parts)
  have comps: "omega1 new = 0" "omega2 new = 0"
    "theta1 new = pi / 2 + (u1 * 0.5 - 0.25)"
    "theta2 new = pi / 2 + 1 + (u2 * 0.5 - 0.25)"
    unfolding new val by simp_all
  show ?thesis
    unfolding comps using bounds rest new val by blast
qed

theorem reset_random_witness:
  "(0 :: real) \<le> 1 / 4 \<and> (1 / 4 :: real) < 1 \<and> (0 :: real) \<le> 3 / 4 \<and> (3 / 4 :: real) < 1
   \<and> getInitialState (fst (reset None None None None (1 / 4) (3 / 4) 7 newPendulumSimulation))
       = \<lparr>theta1 = pi / 2 - 1 / 8, theta2 = pi / 2 + 1 + 1 / 8, omega1 = 0, omega2 = 0\<rparr>"
  using reset_random [of "1 / 4" "3 / 4" 7 newPendulumSimulation]
  by simp

subsection \<open>The frame that a reset of the default actor runs\<close>

text \<open>
  With the default parameters, a state at rest whose first angle is within \<open>1/4\<close> of
  \<open>pi/2\<close> is accelerated by gravity: after each integration step of \<open>0.01\<close> the first
  angular velocity has decreased by at least \<open>1/300000\<close>. The bounds below hold for the
  four derivative evaluations of a step and then for the 40 steps of a frame.
\<close>

lemma DEFAULT_PARAMS_fields:
  "l1 DEFAULT_PARAMS = 150" "l2 DEFAULT_PARAMS = 150" "m1 DEFAULT_PARAMS = 20"
  "m2 DEFAULT_PARAMS = 20" "g DEFAULT_PARAMS = 1"
  by (simp_all add: DEFAULT_PARAMS_def)

lemma sin_near_half_pi:
  fixes x :: real
  assumes "\<bar>x - pi / 2\<bar> \<le> 1 / 2"
  shows "1 / 2 \<le> sin x"
proof -
  have "sin x = cos (x - pi / 2)"
    by (simp add: cos_diff)
  also have "\<dots> = cos \<bar>x - pi / 2\<bar>"
    by simp
  finally have eq: "sin x = cos \<bar>x - pi / 2\<bar>" .
  have third: "1 / 2 \<le> pi / 3" using pi_ge_two by simp
  have "cos (pi / 3) \<le> cos \<bar>x - pi / 2\<bar>"
    by (rule cos_monotone_0_pi_le) (use assms third in simp_all)
  then show ?thesis by (simp add: eq cos_60)
qed

lemma square_small:
  fixes x :: real
  assumes "\<bar>x\<bar> \<le> 1 / 50"
  shows "0 \<le> x * x" and "x * x \<le> 1 / 2500"
proof -
  show "0 \<le> x * x" by simp
  have "\<bar>x\<bar> * \<bar>x\<bar> \<le> (1 / 50) * (1 / 50)"
    by (rule mult_mono) (use assms in simp_all)
  then show "x * x \<le> 1 / 2500" by (simp add: abs_mult_self_eq)
qed

lemma abs_sin_cos_factor:
  fixes s c q :: real
  assumes "\<bar>s\<bar> \<le> 1" and "\<bar>q\<bar> \<le> b"
  shows "\<bar>s * q\<bar> \<le> b"
proof -
  have "0 \<le> b" using assms(2) by linarith
  have "\<bar>s * q\<bar> = \<bar>s\<bar> * \<bar>q\<bar>" by (simp add: abs_mult)
  also have "\<dots> \<le> 1 * b"
    by (rule mult_mono) (use assms \<open>0 \<le> b\<close> in simp_all)
  finally show ?thesis by simp
qed

lemma default_den1_bounds: "40 \<le> den1 st DEFAULT_PARAMS" "den1 st DEFAULT_PARAMS \<le> 80"
proof -
  have "-1 \<le> cos (2 * theta1 st - 2 * theta2 st)" "cos (2 * theta1 st - 2 * theta2 st) \<le> 1"
    by simp_all
  then show "40 \<le> den1 st DEFAULT_PARAMS" "den1 st DEFAULT_PARAMS \<le> 80"
    unfolding den1_def DEFAULT_PARAMS_fields by linarith+
qed

lemma default_alpha_bounds:
  assumes th: "\<bar>theta1 st - pi / 2\<bar> \<le> 1 / 2"
    and w1: "\<bar>omega1 st\<bar> \<le> 1 / 50" and w2: "\<bar>omega2 st\<bar> \<le> 1 / 50"
  shows "- (1 / 50) \<le> alpha1 st DEFAULT_PARAMS"
    and "alpha1 st DEFAULT_PARAMS \<le> - (1 / 3000)"
    and "\<bar>alpha2 st DEFAULT_PARAMS\<bar> \<le> 1 / 50"
proof -
  define x where "x = omega1 st * omega1 st"
  define y where "y = omega2 st * omega2 st"
  define sd where "sd = sin (delta st)"
  define cd where "cd = cos (delta st)"
  define s1 where "s1 = sin (theta1 st)"
  define c1 where "c1 = cos (theta1 st)"
  define s12 where "s12 = sin (theta1 st - 2 * theta2 st)"
  define d where "d = den1 st DEFAULT_PARAMS"
  have x: "0 \<le> x" "x \<le> 1 / 2500" unfolding x_def using square_small [OF w1] by simp_all
  have y: "0 \<le> y" "y \<le> 1 / 2500" unfolding y_def using square_small [OF w2] by simp_all
  have sd: "\<bar>sd\<bar> \<le> 1" and cd: "\<bar>cd\<bar> \<le> 1" and c1: "\<bar>c1\<bar> \<le> 1" and s12: "\<bar>s12\<bar> \<le> 1"
    by (simp_all add: sd_def cd_def c1_def s12_def)
  have s1: "1 / 2 \<le> s1" "s1 \<le> 1"
    unfolding s1_def using sin_near_half_pi [OF th] by simp_all
  have d: "40 \<le> d" "d \<le> 80" unfolding d_def by (rule default_den1_bounds)+
  have xcd: "\<bar>x * cd\<bar> \<le> 1 / 2500"
    using abs_sin_cos_factor [OF cd, of x "1 / 2500"] x by (simp add: mult.commute)
  have ycd: "\<bar>y * cd\<bar> \<le> 1 / 2500"
    using abs_sin_cos_factor [OF cd, of y "1 / 2500"] y by (simp add: mult.commute)
  have n1: "num1 st DEFAULT_PARAMS = - 60 * s1 - 20 * s12 - 40 * (sd * (150 * y + 150 * (x * cd)))"
    by (simp add: num1_def DEFAULT_PARAMS_fields x_def y_def sd_def cd_def s1_def s12_def algebra_simps)
  have q1: "\<bar>150 * y + 150 * (x * cd)\<bar> \<le> 3 / 25"
    using y xcd by linarith
  have t3: "\<bar>sd * (150 * y + 150 * (x * cd))\<bar> \<le> 3 / 25"
    by (rule abs_sin_cos_factor [OF sd q1])
  have n1_hi: "num1 st DEFAULT_PARAMS \<le> - 4"
    unfolding n1 using s1 s12 t3 by linarith
  have n1_lo: "- 120 \<le> num1 st DEFAULT_PARAMS"
    unfolding n1 using s1 s12 t3 by linarith
  have a1: "alpha1 st DEFAULT_PARAMS = num1 st DEFAULT_PARAMS / (150 * d)"
    by (simp add: alpha1_def d_def DEFAULT_PARAMS_fields)
  have dpos: "0 < 150 * d" using d by simp
  show "alpha1 st DEFAULT_PARAMS \<le> - (1 / 3000)"
    unfolding a1 using n1_hi d dpos by (simp add: pos_divide_le_eq)
  show "- (1 / 50) \<le> alpha1 st DEFAULT_PARAMS"
    unfolding a1 using n1_lo d dpos by (simp add: pos_le_divide_eq)
  have n2: "num2 st DEFAULT_PARAMS = 2 * (sd * (6000 * x + 40 * c1 + 3000 * (y * cd)))"
    by (simp add: num2_def DEFAULT_PARAMS_fields x_def y_def sd_def cd_def c1_def algebra_simps)
  have q2: "\<bar>6000 * x + 40 * c1 + 3000 * (y * cd)\<bar> \<le> 60"
    using x ycd c1 by linarith
  have t2: "\<bar>sd * (6000 * x + 40 * c1 + 3000 * (y * cd))\<bar> \<le> 60"
    by (rule abs_sin_cos_factor [OF sd q2])
  have n2_abs: "\<bar>num2 st DEFAULT_PARAMS\<bar> \<le> 120"
    unfolding n2 using t2 by linarith
  have a2: "alpha2 st DEFAULT_PARAMS = num2 st DEFAULT_PARAMS / (150 * d)"
    by (simp add: alpha2_def d_def den2_eq_den1 DEFAULT_PARAMS_fields)
  have "- (1 / 50) \<le> num2 st DEFAULT_PARAMS / (150 * d)"
    using n2_abs d dpos by (simp add: pos_le_divide_eq)
  moreover have "num2 st DEFAULT_PARAMS / (150 * d) \<le> 1 / 50"
    using n2_abs d dpos by (simp add: pos_divide_le_eq)
  ultimately show "\<bar>alpha2 st DEFAULT_PARAMS\<bar> \<le> 1 / 50"
    unfolding a2 by linarith
qed

lemma getDerivatives_sel:
  "dTheta1 (getDerivatives st ps) = omega1 st" "dTheta2 (getDerivatives st ps) = omega2 st"
  "dOmega1 (getDerivatives st ps) = alpha1 st ps" "dOmega2 (getDerivatives st ps) = alpha2 st ps"
  by (simp_all add: getDerivatives_def)

lemma abs_bound_split:
  fixes x :: real
  shows "\<bar>x\<bar> \<le> b \<Longrightarrow> - b \<le> x \<and> x \<le> b"
  by linarith

lemma default_step:
  assumes th: "\<bar>theta1 st - pi / 2\<bar> \<le> 2 / 5"
    and w1: "\<bar>omega1 st\<bar> \<le> 1 / 100" and w2: "\<bar>omega2 st\<bar> \<le> 1 / 100"
  shows "omega1 (integrateRK4Step st DEFAULT_PARAMS 0.01) \<le> omega1 st - 1 / 300000"
    and "omega1 st - 1 / 5000 \<le> omega1 (integrateRK4Step st DEFAULT_PARAMS 0.01)"
    and "\<bar>omega2 (integrateRK4Step st DEFAULT_PARAMS 0.01) - omega2 st\<bar> \<le> 1 / 5000"
    and "\<bar>theta1 (integrateRK4Step st DEFAULT_PARAMS 0.01) - theta1 st\<bar> \<le> 1 / 5000"
proof -
  define s2 where "s2 =
    \<lparr>theta1 = theta1 st + omega1 st * 0.01 * 0.5,
     theta2 = theta2 st + omega2 st * 0.01 * 0.5,
     omega1 = omega1 st + alpha1 st DEFAULT_PARAMS * 0.01 * 0.5,
     omega2 = omega2 st + alpha2 st DEFAULT_PARAMS * 0.01 * 0.5\<rparr>"
  define s3 where "s3 =
    \<lparr>theta1 = theta1 st + omega1 s2 * 0.01 * 0.5,
     theta2 = theta2 st + omega2 s2 * 0.01 * 0.5,
     omega1 = omega1 st + alpha1 s2 DEFAULT_PARAMS * 0.01 * 0.5,
     omega2 = omega2 st + alpha2 s2 DEFAULT_PARAMS * 0.01 * 0.5\<rparr>"
  define s4 where "s4 =
    \<lparr>theta1 = theta1 st + omega1 s3 * 0.01,
     theta2 = theta2 st + omega2 s3 * 0.01,
     omega1 = omega1 st + alpha1 s3 DEFAULT_PARAMS * 0.01,
     omega2 = omega2 st + alpha2 s3 DEFAULT_PARAMS * 0.01\<rparr>"
  have res: "integrateRK4Step st DEFAULT_PARAMS 0.01 =
    \<lparr>theta1 = theta1 st + (0.01 / 6) * (omega1 st + 2 * omega1 s2 + 2 * omega1 s3 + omega1 s4),
     theta2 = theta2 st + (0.01 / 6) * (omega2 st + 2 * omega2 s2 + 2 * omega2 s3 + omega2 s4),
     omega1 = omega1 st + (0.01 / 6) * (alpha1 st DEFAULT_PARAMS + 2 * alpha1 s2 DEFAULT_PARAMS
                + 2 * alpha1 s3 DEFAULT_PARAMS + alpha1 s4 DEFAULT_PARAMS),
     omega2 = omega2 st + (0.01 / 6) * (alpha2 st DEFAULT_PARAMS + 2 * alpha2 s2 DEFAULT_PARAMS
                + 2 * alpha2 s3 DEFAULT_PARAMS + alpha2 s4 DEFAULT_PARAMS)\<rparr>"
    unfolding integrateRK4Step_def Let_def getDerivatives_sel s4_def s3_def s2_def ..
  have f2: "theta1 s2 = theta1 st + omega1 st / 200"
    "omega1 s2 = omega1 st + alpha1 st DEFAULT_PARAMS / 200"
    "omega2 s2 = omega2 st + alpha2 st DEFAULT_PARAMS / 200"
    by (simp_all add: s2_def)
  have f3: "theta1 s3 = theta1 st + omega1 s2 / 200"
    "omega1 s3 = omega1 st + alpha1 s2 DEFAULT_PARAMS / 200"
    "omega2 s3 = omega2 st + alpha2 s2 DEFAULT_PARAMS / 200"
    by (simp_all add: s3_def)
  have f4: "theta1 s4 = theta1 st + omega1 s3 / 100"
    "omega1 s4 = omega1 st + alpha1 s3 DEFAULT_PARAMS / 100"
    "omega2 s4 = omega2 st + alpha2 s3 DEFAULT_PARAMS / 100"
    by (simp_all add: s4_def)
  have r: "theta1 (integrateRK4Step st DEFAULT_PARAMS 0.01)
             = theta1 st + (omega1 st + 2 * omega1 s2 + 2 * omega1 s3 + omega1 s4) / 600"
    "omega1 (integrateRK4Step st DEFAULT_PARAMS 0.01)
       = omega1 st + (alpha1 st DEFAULT_PARAMS + 2 * alpha1 s2 DEFAULT_PARAMS
                + 2 * alpha1 s3 DEFAULT_PARAMS + alpha1 s4 DEFAULT_PARAMS) / 600"
    "omega2 (integrateRK4Step st DEFAULT_PARAMS 0.01)
       = omega2 st + (alpha2 st DEFAULT_PARAMS + 2 * alpha2 s2 DEFAULT_PARAMS
                + 2 * alpha2 s3 DEFAULT_PARAMS + alpha2 s4 DEFAULT_PARAMS) / 600"
    unfolding res by simp_all
  have a: "- (1 / 50) \<le> alpha1 st DEFAULT_PARAMS" "alpha1 st DEFAULT_PARAMS \<le> - (1 / 3000)"
    "\<bar>alpha2 st DEFAULT_PARAMS\<bar> \<le> 1 / 50"
    by (rule default_alpha_bounds; use th w1 w2 in linarith)+
  have s2: "\<bar>theta1 s2 - pi / 2\<bar> \<le> 1 / 2" "\<bar>omega1 s2\<bar> \<le> 1 / 50" "\<bar>omega2 s2\<bar> \<le> 1 / 50"
    unfolding f2 using th w1 w2 a by linarith+
  have b: "- (1 / 50) \<le> alpha1 s2 DEFAULT_PARAMS" "alpha1 s2 DEFAULT_PARAMS \<le> - (1 / 3000)"
    "\<bar>alpha2 s2 DEFAULT_PARAMS\<bar> \<le> 1 / 50"
    by (rule default_alpha_bounds [OF s2])+
  have s3: "\<bar>theta1 s3 - pi / 2\<bar> \<le> 1 / 2" "\<bar>omega1 s3\<bar> \<le> 1 / 50" "\<bar>omega2 s3\<bar> \<le> 1 / 50"
    unfolding f3 using th w1 w2 b s2 by linarith+
  have c: "- (1 / 50) \<le> alpha1 s3 DEFAULT_PARAMS" "alpha1 s3 DEFAULT_PARAMS \<le> - (1 / 3000)"
    "\<bar>alpha2 s3 DEFAULT_PARAMS\<bar> \<le> 1 / 50"
    by (rule default_alpha_bounds [OF s3])+
  have s4: "\<bar>theta1 s4 - pi / 2\<bar> \<le> 1 / 2" "\<bar>omega1 s4\<bar> \<le> 1 / 50" "\<bar>omega2 s4\<bar> \<le> 1 / 50"
    unfolding f4 using th w1 w2 c s3 by linarith+
  have d: "- (1 / 50) \<le> alpha1 s4 DEFAULT_PARAMS" "alpha1 s4 DEFAULT_PARAMS \<le> - (1 / 3000)"
    "\<bar>alpha2 s4 DEFAULT_PARAMS\<bar> \<le> 1 / 50"
    by (rule default_alpha_bounds [OF s4])+
  show "omega1 (integrateRK4Step st DEFAULT_PARAMS 0.01) \<le> omega1 st - 1 / 300000"
    unfolding r using a(2) b(2) c(2) d(2) by simp
  show "omega1 st - 1 / 5000 \<le> omega1 (integrateRK4Step st DEFAULT_PARAMS 0.01)"
    unfolding r using a(1) b(1) c(1) d(1) by simp
  have e: "- (1 / 50) \<le> alpha2 st DEFAULT_PARAMS \<and> alpha2 st DEFAULT_PARAMS \<le> 1 / 50"
    "- (1 / 50) \<le> alpha2 s2 DEFAULT_PARAMS \<and> alpha2 s2 DEFAULT_PARAMS \<le> 1 / 50"
    "- (1 / 50) \<le> alpha2 s3 DEFAULT_PARAMS \<and> alpha2 s3 DEFAULT_PARAMS \<le> 1 / 50"
    "- (1 / 50) \<le> alpha2 s4 DEFAULT_PARAMS \<and> alpha2 s4 DEFAULT_PARAMS \<le> 1 / 50"
    by (rule abs_bound_split, fact)+
  show "\<bar>omega2 (integrateRK4Step st DEFAULT_PARAMS 0.01) - omega2 st\<bar> \<le> 1 / 5000"
    unfolding r by (rule abs_leI) (use e in simp_all)
  show "\<bar>theta1 (integrateRK4Step st DEFAULT_PARAMS 0.01) - theta1 st\<bar> \<le> 1 / 5000"
    unfolding r
    by (rule abs_leI)
      (use abs_bound_split [OF w1] abs_bound_split [OF s2(2)] abs_bound_split [OF s3(2)]
        abs_bound_split [OF s4(2)] in simp_all)
qed

lemma default_frame_omega1:
  assumes "0 \<le> i" and "i \<le> steps" and "steps \<le> 40"
    and "\<bar>theta1 st - pi / 2\<bar> \<le> 1 / 4 + of_int i / 5000"
    and "\<bar>omega1 st\<bar> \<le> of_int i / 5000"
    and "\<bar>omega2 st\<bar> \<le> of_int i / 5000"
    and "omega1 st \<le> - (of_int i / 300000)"
  shows "omega1 (fst (forSteps i steps DEFAULT_PARAMS 0.01 st history)) \<le> - (of_int steps / 300000)"
  using assms
proof (induction i steps DEFAULT_PARAMS "0.01 :: real" st history rule: forSteps.induct)
  case (1 i steps st history)
  show ?case
  proof (cases "i < steps")
    case True
    let ?st = "integrateRK4Step st DEFAULT_PARAMS 0.01"
    have i40: "of_int i \<le> (39 :: real)"
      using True "1.prems"(3) by linarith
    have pre: "\<bar>theta1 st - pi / 2\<bar> \<le> 2 / 5" "\<bar>omega1 st\<bar> \<le> 1 / 100" "\<bar>omega2 st\<bar> \<le> 1 / 100"
      using "1.prems"(4,5,6) i40 by linarith+
    note step = default_step [OF pre]
    have next_i: "of_int (i + 1) = (of_int i + 1 :: real)" by simp
    have unf: "forSteps i steps DEFAULT_PARAMS 0.01 st history
                 = forSteps (i + 1) steps DEFAULT_PARAMS 0.01 ?st (history @ [?st])"
      using True by (subst forSteps.simps) (simp add: Let_def)
    have "omega1 (fst (forSteps (i + 1) steps DEFAULT_PARAMS 0.01 ?st (history @ [?st])))
            \<le> - (of_int steps / 300000)"
    proof (rule "1.hyps" [OF True refl])
      show "0 \<le> i + 1" using "1.prems"(1) by simp
      show "i + 1 \<le> steps" using True by simp
      show "steps \<le> 40" by (rule "1.prems"(3))
      show "\<bar>theta1 ?st - pi / 2\<bar> \<le> 1 / 4 + of_int (i + 1) / 5000"
        unfolding next_i add_divide_distrib using step(4) "1.prems"(4) by linarith
      show "\<bar>omega1 ?st\<bar> \<le> of_int (i + 1) / 5000"
        unfolding next_i add_divide_distrib using step(1,2) "1.prems"(5) by linarith
      show "\<bar>omega2 ?st\<bar> \<le> of_int (i + 1) / 5000"
        unfolding next_i add_divide_distrib using step(3) "1.prems"(6) by linarith
      show "omega1 ?st \<le> - (of_int (i + 1) / 300000)"
        unfolding next_i add_divide_distrib using step(1) "1.prems"(7) by linarith
    qed
    then show ?thesis by (simp only: unf)
  next
    case False
    with "1.prems"(2) have "i = steps" by simp
    moreover have "forSteps i steps DEFAULT_PARAMS 0.01 st history = (st, history)"
      using False by (subst forSteps.simps) simp
    ultimately show ?thesis using "1.prems"(7) by simp
  qed
qed

lemma frameSteps_default: "frameSteps newPendulumSimulation = 40"
  by (simp add: frameSteps_def newPendulumSimulation_def constructor_def baseStepsPerFrame_def
      Math_round_def)

lemma default_reset_frame:
  assumes "\<bar>theta1 st - pi / 2\<bar> \<le> 1 / 4" and "omega1 st = 0" and "omega2 st = 0"
  shows "omega1 (fst (forSteps 0 (frameSteps newPendulumSimulation)
            (params newPendulumSimulation) 0.01 st [st])) < 0"
proof -
  have "omega1 (fst (forSteps 0 40 DEFAULT_PARAMS 0.01 st [st])) \<le> - (of_int 40 / 300000)"
    by (rule default_frame_omega1) (use assms in simp_all)
  moreover have "params newPendulumSimulation = DEFAULT_PARAMS"
    by (simp add: newPendulumSimulation_def constructor_def)
  ultimately show ?thesis
    by (simp add: frameSteps_default)
qed

text \<open>
  C3 as stated fails for the live state. On the actor \<^verbatim>\<open>new PendulumSimulation()\<close>,
  whose initial state has \<open>omega1 = 0\<close>, the call \<^verbatim>\<open>reset(pi/2 + 1/10)\<close> omits
  \<open>omega1\<close>; the live state after the call has \<open>omega1 < 0\<close>, not the \<open>omega1\<close> of the
  initial state before the call.
\<close>

theorem reset_partial_live_state_counterexample:
  "omega1 (getInitialState newPendulumSimulation) = 0
   \<and> omega1 (getState (fst (reset (Some (pi / 2 + 1 / 10)) None None None 0 0 0
        newPendulumSimulation))) < 0"
proof -
  define st where "st = resetState (Some (pi / 2 + 1 / 10)) None None None 0 0 newPendulumSimulation"
  have st: "st = \<lparr>theta1 = pi / 2 + 1 / 10, theta2 = pi / 2 + 1, omega1 = 0, omega2 = 0\<rparr>"
    by (simp add: st_def resetState_def newPendulumSimulation_def constructor_def INITIAL_STATE_def)
  have live: "getState (fst (reset (Some (pi / 2 + 1 / 10)) None None None 0 0 0 newPendulumSimulation))
          = fst (forSteps 0 (frameSteps newPendulumSimulation)
              (params newPendulumSimulation) 0.01 st [st])"
    unfolding st_def getState_def by (rule reset_parts(2))
  have "omega1 (fst (forSteps 0 (frameSteps newPendulumSimulation)
            (params newPendulumSimulation) 0.01 st [st])) < 0"
    by (rule default_reset_frame) (simp_all add: st)
  moreover have "omega1 (getInitialState newPendulumSimulation) = 0"
    by (simp add: getInitialState_def newPendulumSimulation_def constructor_def INITIAL_STATE_def)
  ultimately show ?thesis
    by (simp only: live simp_thms)
qed

text \<open>
  C8 as stated fails for the live state. On the actor \<^verbatim>\<open>new PendulumSimulation()\<close>,
  with both random draws \<open>1/2\<close>, the live state after \<^verbatim>\<open>reset()\<close> has \<open>omega1 < 0\<close>.
\<close>

theorem reset_random_live_state_counterexample:
  "(0 :: real) \<le> 1 / 2 \<and> (1 / 2 :: real) < 1
   \<and> omega1 (getState (fst (reset None None None None (1 / 2) (1 / 2) 0 newPendulumSimulation))) < 0"
proof -
  define st where "st = resetState None None None None (1 / 2) (1 / 2) newPendulumSimulation"
  have st: "st = \<lparr>theta1 = pi / 2, theta2 = pi / 2 + 1, omega1 = 0, omega2 = 0\<rparr>"
    by (simp add: st_def resetState_def)
  have live: "getState (fst (reset None None None None (1 / 2) (1 / 2) 0 newPendulumSimulation))
          = fst (forSteps 0 (frameSteps newPendulumSimulation)
              (params newPendulumSimulation) 0.01 st [st])"
    unfolding st_def getState_def by (rule reset_parts(2))
  have "omega1 (fst (forSteps 0 (frameSteps newPendulumSimulation)
            (params newPendulumSimulation) 0.01 st [st])) < 0"
    by (rule default_reset_frame) (simp_all add: st)
  then show ?thesis
    by (simp add: live)
qed

section \<open>The velocity chaos map: pixels, colours and progress\<close>

subsection \<open>The divergence score of a pixel\<close>

lemma pixelIndex_paintPixel: "pixelIndex (paintPixel cfg gen) = pixelIndex gen + 1"
  by (simp add: paintPixel_def Let_def case_prod_beta)

lemma paintPixel_data:
  "data (paintPixel cfg gen) (pixelIndex gen * 4) = toUint8Clamped (fst (color (normalized cfg (pixelIndex gen))))"
  "data (paintPixel cfg gen) (pixelIndex gen * 4 + 1) = toUint8Clamped (fst (snd (color (normalized cfg (pixelIndex gen)))))"
  "data (paintPixel cfg gen) (pixelIndex gen * 4 + 2) = toUint8Clamped (snd (snd (color (normalized cfg (pixelIndex gen)))))"
  "data (paintPixel cfg gen) (pixelIndex gen * 4 + 3) = 255"
  by (simp_all add: paintPixel_def Let_def case_prod_beta toUint8Clamped_def)

lemma toUint8Clamped_id: "0 \<le> v \<Longrightarrow> v \<le> 255 \<Longrightarrow> toUint8Clamped v = v"
  by (simp add: toUint8Clamped_def)

lemma config_fields:
  "RESOLUTION config = 250" "SIM_STEPS config = 3000" "DT config = 0.01" "EPSILON config = 0.001"
  "totalPixels config = 62500"
  by (simp_all add: config_def totalPixels_def)

lemma spec_trajectory_step:
  "spec_trajectory dt (integrateRK4Step s FRACTAL_PARAMS dt) k = spec_trajectory dt s (Suc k)"
  unfolding spec_trajectory_def
  by (simp add: funpow_swap1 [of "\<lambda>s. integrateRK4Step s FRACTAL_PARAMS dt"])

lemma spec_trajectory_1: "spec_trajectory dt s 1 = integrateRK4Step s FRACTAL_PARAMS dt"
  by (simp add: spec_trajectory_def)

lemma forSimSteps_sum:
  assumes "0 \<le> i" and "i \<le> SIM_STEPS cfg"
  shows "forSimSteps i cfg s1 s2 totalDiff =
     totalDiff + (\<Sum>k = 1..nat (SIM_STEPS cfg - i).
        min (spec_distance (spec_trajectory (DT cfg) s1 k) (spec_trajectory (DT cfg) s2 k)) 2)"
  using assms
proof (induction i cfg s1 s2 totalDiff rule: forSimSteps.induct)
  case (1 i cfg s1 s2 totalDiff)
  let ?f = "\<lambda>a b k. min (spec_distance (spec_trajectory (DT cfg) a k) (spec_trajectory (DT cfg) b k)) 2"
  show ?case
  proof (cases "i < SIM_STEPS cfg")
    case True
    let ?s1 = "integrateRK4Step s1 FRACTAL_PARAMS (DT cfg)"
    let ?s2 = "integrateRK4Step s2 FRACTAL_PARAMS (DT cfg)"
    define d where "d = min (spec_distance ?s1 ?s2) 2"
    define m where "m = nat (SIM_STEPS cfg - (i + 1))"
    have unf: "forSimSteps i cfg s1 s2 totalDiff = forSimSteps (i + 1) cfg ?s1 ?s2 (totalDiff + d)"
      using True
      by (subst forSimSteps.simps)
        (simp add: Let_def d_def spec_distance_def power2_eq_square)
    have ih: "forSimSteps (i + 1) cfg ?s1 ?s2 (totalDiff + d)
                = (totalDiff + d) + (\<Sum>k = 1..m. ?f ?s1 ?s2 k)"
    proof -
      have next_ok: "0 \<le> i + 1" "i + 1 \<le> SIM_STEPS cfg"
        using True "1.prems" by simp_all
      note "1.IH" [OF True refl refl refl refl refl refl refl refl next_ok]
      then show ?thesis
        by (simp add: m_def d_def spec_distance_def power2_eq_square)
    qed
    have shift: "(\<Sum>k = 1..m. ?f ?s1 ?s2 k) = (\<Sum>k = Suc 1..Suc m. ?f s1 s2 k)"
    proof -
      have "(\<Sum>k = 1..m. ?f ?s1 ?s2 k) = (\<Sum>k = 1..m. ?f s1 s2 (Suc k))"
        by (simp add: spec_trajectory_step)
      also have "\<dots> = (\<Sum>k = Suc 1..Suc m. ?f s1 s2 k)"
        by (rule sum.shift_bounds_cl_Suc_ivl [symmetric])
      finally show ?thesis .
    qed
    have first: "d = ?f s1 s2 1"
      unfolding d_def spec_trajectory_1 ..
    have m: "nat (SIM_STEPS cfg - i) = Suc m"
      using True by (simp add: m_def)
    have split: "(\<Sum>k = 1..Suc m. ?f s1 s2 k) = ?f s1 s2 1 + (\<Sum>k = Suc 1..Suc m. ?f s1 s2 k)"
      by (rule sum.atLeast_Suc_atMost) simp
    have "forSimSteps i cfg s1 s2 totalDiff = (totalDiff + d) + (\<Sum>k = 1..m. ?f ?s1 ?s2 k)"
      by (simp only: unf ih)
    also have "\<dots> = totalDiff + (d + (\<Sum>k = Suc 1..Suc m. ?f s1 s2 k))"
      by (simp only: shift add.assoc)
    also have "d + (\<Sum>k = Suc 1..Suc m. ?f s1 s2 k) = (\<Sum>k = 1..Suc m. ?f s1 s2 k)"
      by (simp only: first split)
    finally show ?thesis
      by (simp only: m)
  next
    case False
    then have "forSimSteps i cfg s1 s2 totalDiff = totalDiff"
      by (subst forSimSteps.simps) simp
    moreover from False "1.prems" have "nat (SIM_STEPS cfg - i) = 0" by simp
    ultimately show ?thesis by simp
  qed
qed

lemma avgDist_spec_score:
  "0 \<le> SIM_STEPS cfg \<Longrightarrow>
     avgDist cfg p = spec_score cfg (startS1 cfg p) (startS2 cfg p)"
  by (simp add: avgDist_def spec_score_def forSimSteps_sum)

lemma spec_score_nonneg: "0 \<le> SIM_STEPS cfg \<Longrightarrow> 0 \<le> spec_score cfg a b"
  unfolding spec_score_def
  by (intro divide_nonneg_nonneg sum_nonneg) (simp_all add: spec_distance_def)

lemma normalized_spec_intensity: "normalized cfg p = spec_intensity (avgDist cfg p)"
  by (simp add: normalized_def spec_intensity_def spec_clamp_def max_def min_def)

lemma pixel_coordinates:
  assumes "0 \<le> x" and "x < RESOLUTION cfg" and "0 \<le> y"
  shows "pixelX cfg (y * RESOLUTION cfg + x) = x" and "pixelY cfg (y * RESOLUTION cfg + x) = y"
proof -
  have pos: "0 < RESOLUTION cfg" using assms(1,2) by linarith
  show "pixelX cfg (y * RESOLUTION cfg + x) = x"
    using assms pos by (simp add: pixelX_def)
  have "pixelY cfg (y * RESOLUTION cfg + x) = (y * RESOLUTION cfg + x) div RESOLUTION cfg"
    unfolding pixelY_def by (simp only: floor_divide_of_int_eq)
  also have "\<dots> = y"
    using assms pos by simp
  finally show "pixelY cfg (y * RESOLUTION cfg + x) = y" .
qed

text \<open>
  C1. For every grid cell \<open>(x, y)\<close> with \<open>0 \<le> x, y < RESOLUTION\<close>, which is the pixel of
  index \<open>y * RESOLUTION + x\<close>, the generator recovers \<open>x\<close> and \<open>y\<close> from the index, seeds
  trajectory A at \<open>{theta1: 0, theta2: 0, omega1: minOmega + (x/RESOLUTION)*range,
  omega2: minOmega + (y/RESOLUTION)*range}\<close> and trajectory B at the same state with both
  velocities offset by \<open>EPSILON\<close>; the average distance that it computes is the divergence
  score of the specification (both trajectories advanced \<open>SIM_STEPS\<close> times with step
  \<open>DT\<close>, the mean over the steps of the Euclidean distance of the two states, at most 2.0
  per step); and the intensity from which the pixel is coloured is
  \<open>clamp(0, 1, (score / 1.5) ^ 0.4)\<close>.
\<close>

theorem chaos_map_cell:
  fixes x y :: int and cfg :: FractalConfig
  defines "p \<equiv> y * RESOLUTION cfg + x"
  assumes "0 \<le> x" and "x < RESOLUTION cfg" and "0 \<le> y" and "y < RESOLUTION cfg"
    and "0 < SIM_STEPS cfg"
  shows "pixelX cfg p = x \<and> pixelY cfg p = y
       \<and> startS1 cfg p
           = \<lparr>theta1 = 0, theta2 = 0,
              omega1 = BOUNDS_minOmega + (of_int x / of_int (RESOLUTION cfg)) * BOUNDS_range,
              omega2 = BOUNDS_minOmega + (of_int y / of_int (RESOLUTION cfg)) * BOUNDS_range\<rparr>
       \<and> startS2 cfg p
           = \<lparr>theta1 = 0, theta2 = 0,
              omega1 = BOUNDS_minOmega + (of_int x / of_int (RESOLUTION cfg)) * BOUNDS_range
                         + EPSILON cfg,
              omega2 = BOUNDS_minOmega + (of_int y / of_int (RESOLUTION cfg)) * BOUNDS_range
                         + EPSILON cfg\<rparr>
       \<and> avgDist cfg p = spec_score cfg (startS1 cfg p) (startS2 cfg p)
       \<and> normalized cfg p = spec_intensity (spec_score cfg (startS1 cfg p) (startS2 cfg p))
       \<and> (pixelIndex gen = p \<longrightarrow>
            data (paintPixel cfg gen) (p * 4) = toUint8Clamped (fst (color (normalized cfg p))))"
proof -
  have xy: "pixelX cfg p = x" "pixelY cfg p = y"
    unfolding p_def by (rule pixel_coordinates; fact)+
  have score: "avgDist cfg p = spec_score cfg (startS1 cfg p) (startS2 cfg p)"
    by (rule avgDist_spec_score) (use assms(6) in simp)
  have "normalized cfg p = spec_intensity (avgDist cfg p)"
    by (rule normalized_spec_intensity)
  with score have intensity:
    "normalized cfg p = spec_intensity (spec_score cfg (startS1 cfg p) (startS2 cfg p))"
    by simp
  have painted: "pixelIndex gen = p \<longrightarrow>
      data (paintPixel cfg gen) (p * 4) = toUint8Clamped (fst (color (normalized cfg p)))"
    using paintPixel_data(1) [of cfg gen] by auto
  show ?thesis
    using score intensity painted
    by (simp add: startS1_def startS2_def startOmega1_def startOmega2_def xy)
qed

theorem chaos_map_cell_witness:
  "(0 :: int) \<le> 3 \<and> 3 < RESOLUTION config \<and> (0 :: int) \<le> 2 \<and> 2 < RESOLUTION config
   \<and> 0 < SIM_STEPS config
   \<and> pixelX config 503 = 3 \<and> pixelY config 503 = 2
   \<and> startS1 config 503 = \<lparr>theta1 = 0, theta2 = 0, omega1 = - 10 + (3 / 250) * 20,
                              omega2 = - 10 + (2 / 250) * 20\<rparr>
   \<and> startS2 config 503 = \<lparr>theta1 = 0, theta2 = 0, omega1 = - 10 + (3 / 250) * 20 + 0.001,
                              omega2 = - 10 + (2 / 250) * 20 + 0.001\<rparr>
   \<and> normalized config 503
       = spec_intensity (spec_score config (startS1 config 503) (startS2 config 503))"
  using chaos_map_cell [of 3 config 2]
  by (simp add: config_fields BOUNDS_minOmega_def BOUNDS_range_def)

subsection \<open>The colour of a pixel\<close>

lemma floor_scaled_bounds:
  fixes t c :: real
  assumes "0 \<le> t" and "t \<le> 1" and "0 \<le> c"
  shows "0 \<le> \<lfloor>t * c\<rfloor>" and "\<lfloor>t * c\<rfloor> \<le> \<lfloor>c\<rfloor>"
proof -
  have "0 \<le> t * c" using assms by simp
  then show "0 \<le> \<lfloor>t * c\<rfloor>" by simp
  have "t * c \<le> 1 * c" by (rule mult_right_mono) (use assms in simp_all)
  then show "\<lfloor>t * c\<rfloor> \<le> \<lfloor>c\<rfloor>" by (simp add: floor_mono)
qed

lemma segment1_range:
  assumes "0 \<le> i" and "i < 0.2"
  shows "case segment1 i of (r, gr, b) \<Rightarrow> 0 \<le> r \<and> r \<le> 255 \<and> 0 \<le> gr \<and> gr \<le> 255 \<and> 0 \<le> b \<and> b \<le> 255"
proof -
  have t: "0 \<le> i / 0.2" "i / 0.2 \<le> 1" using assms by simp_all
  show ?thesis
    using floor_scaled_bounds [OF t, of 160]
    by (simp add: segment1_def Let_def)
qed

lemma segment2_range:
  assumes "0.2 \<le> i" and "i < 0.4"
  shows "case segment2 i of (r, gr, b) \<Rightarrow> 0 \<le> r \<and> r \<le> 255 \<and> 0 \<le> gr \<and> gr \<le> 255 \<and> 0 \<le> b \<and> b \<le> 255"
proof -
  have t: "0 \<le> (i - 0.2) / 0.2" "(i - 0.2) / 0.2 \<le> 1" using assms by simp_all
  show ?thesis
    using floor_scaled_bounds [OF t, of 100] floor_scaled_bounds [OF t, of 95]
    by (simp add: segment2_def Let_def)
qed

lemma segment3_range:
  assumes "0.4 \<le> i" and "i < 0.6"
  shows "case segment3 i of (r, gr, b) \<Rightarrow> 0 \<le> r \<and> r \<le> 255 \<and> 0 \<le> gr \<and> gr \<le> 255 \<and> 0 \<le> b \<and> b \<le> 255"
proof -
  have t: "0 \<le> (i - 0.4) / 0.2" "(i - 0.4) / 0.2 \<le> 1" using assms by simp_all
  show ?thesis
    using floor_scaled_bounds [OF t, of 155] floor_scaled_bounds [OF t, of 255]
    by (simp add: segment3_def Let_def)
qed

lemma segment4_range:
  assumes "0.6 \<le> i" and "i < 0.8"
  shows "case segment4 i of (r, gr, b) \<Rightarrow> 0 \<le> r \<and> r \<le> 255 \<and> 0 \<le> gr \<and> gr \<le> 255 \<and> 0 \<le> b \<and> b \<le> 255"
proof -
  have t: "0 \<le> (i - 0.6) / 0.2" "(i - 0.6) / 0.2 \<le> 1" using assms by simp_all
  show ?thesis
    using floor_scaled_bounds [OF t, of 200]
    by (simp add: segment4_def Let_def)
qed

lemma segment5_range:
  assumes "0.8 \<le> i" and "i \<le> 1"
  shows "case segment5 i of (r, gr, b) \<Rightarrow> 0 \<le> r \<and> r \<le> 255 \<and> 0 \<le> gr \<and> gr \<le> 255 \<and> 0 \<le> b \<and> b \<le> 255"
proof -
  have t: "0 \<le> (i - 0.8) / 0.2" "(i - 0.8) / 0.2 \<le> 1" using assms by simp_all
  show ?thesis
    using floor_scaled_bounds [OF t, of 55] floor_scaled_bounds [OF t, of 255]
    by (simp add: segment5_def Let_def)
qed

lemma color_range:
  assumes "0 \<le> i" and "i \<le> 1"
  shows "case color i of (r, gr, b) \<Rightarrow> 0 \<le> r \<and> r \<le> 255 \<and> 0 \<le> gr \<and> gr \<le> 255 \<and> 0 \<le> b \<and> b \<le> 255"
proof -
  consider "i < 0.2" | "0.2 \<le> i" "i < 0.4" | "0.4 \<le> i" "i < 0.6" | "0.6 \<le> i" "i < 0.8" | "0.8 \<le> i"
    by linarith
  then show ?thesis
  proof cases
    case 1
    then show ?thesis using segment1_range [OF assms(1)] by (simp add: color_def)
  next
    case 2
    then show ?thesis using segment2_range [of i] by (simp add: color_def)
  next
    case 3
    then show ?thesis using segment3_range [of i] by (simp add: color_def)
  next
    case 4
    then show ?thesis using segment4_range [of i] by (simp add: color_def)
  next
    case 5
    then show ?thesis using segment5_range [OF _ assms(2)] by (simp add: color_def)
  qed
qed

lemma segments_agree:
  "segment1 0.2 = segment2 0.2" "segment2 0.4 = segment3 0.4"
  "segment3 0.6 = segment4 0.6" "segment4 0.8 = segment5 0.8"
  by (simp_all add: segment1_def segment2_def segment3_def segment4_def segment5_def Let_def)

lemma normalized_range: "0 \<le> normalized cfg p" "normalized cfg p \<le> 1"
  by (simp_all add: normalized_def)

text \<open>
  The lemmas above are on the mapping in exact arithmetic, where the formulas of adjacent
  branches agree at all four boundaries. The code computes the mapping in binary64.
\<close>

subsection \<open>The colour of a pixel in binary64\<close>

lemma Math_floor_of_int: "Math_floor (Fin (of_int n)) = Fin (of_int n)"
  by simp

lemma is_double_02: "is_double (3602879701896397 / 2 ^ 54)"
  by (rule is_double_eval [of "- 3" _ 7205759403792794]) simp_all

lemma is_double_06_04: "is_double (900719925474099 / 2 ^ 52)"
  by (rule is_double_eval [of "- 3" _ 7205759403792792]) simp_all

lemma is_double_08_06: "is_double (1801439850948199 / 2 ^ 53)"
  by (rule is_double_eval [of "- 3" _ 7205759403792796]) simp_all

text \<open>The quotient \<open>t\<close> and its products at the boundaries 0.6 and 0.8 and at 1.\<close>

lemma t_below_one: "rnd (3602879701896396 / 3602879701896397) = Fin (4503599627370495 / 2 ^ 52)"
  using rnd_eval [of "- 1" "3602879701896396 / 3602879701896397" "2 ^ 53 - 2"] by simp

lemma t_below_one_155: "rnd (4503599627370495 / 2 ^ 52 * 155) = Fin (5453577673768959 / 2 ^ 45)"
  using rnd_eval [of 7 "4503599627370495 / 2 ^ 52 * 155" 5453577673768959] by simp

lemma t_below_one_255: "rnd (4503599627370495 / 2 ^ 52 * 255) = Fin (4486007441326079 / 2 ^ 44)"
  using rnd_eval [of 7 "4503599627370495 / 2 ^ 52 * 255" 8972014882652158] by simp

lemma t_below_one_55: "rnd (4503599627370495 / 2 ^ 52 * 55) = Fin (3870280929771519 / 2 ^ 46)"
  using rnd_eval [of 5 "4503599627370495 / 2 ^ 52 * 55" 7740561859543038] by simp

lemma t_above_one: "rnd (3602879701896398 / 3602879701896397) = Fin (4503599627370497 / 2 ^ 52)"
  using rnd_eval [of 0 "3602879701896398 / 3602879701896397" 4503599627370497] by simp

lemma t_above_one_200: "rnd (4503599627370497 / 2 ^ 52 * 200) = Fin (7036874417766402 / 2 ^ 45)"
  using rnd_eval [of 7 "4503599627370497 / 2 ^ 52 * 200" 7036874417766402] by simp

lemma segment1_f_02: "segment1_f (rnd 0.2) = (Fin 0, Fin 0, Fin 160)"
  using rnd_02
  by (simp add: segment1_f_def Let_def number_simps)

lemma segment2_f_02: "segment2_f (rnd 0.2) = (Fin 0, Fin 0, Fin 160)"
  using rnd_02
  by (simp add: segment2_f_def Let_def number_simps)

lemma segment2_f_04: "segment2_f (rnd 0.4) = (Fin 100, Fin 0, Fin 255)"
  using rnd_02 rnd_04 rnd_exact [OF is_double_02]
  by (simp add: segment2_f_def Let_def number_simps)

lemma segment3_f_04: "segment3_f (rnd 0.4) = (Fin 100, Fin 0, Fin 255)"
  using rnd_02 rnd_04
  by (simp add: segment3_f_def Let_def number_simps)

lemma segment3_f_06: "segment3_f (rnd 0.6) = (Fin 254, Fin 0, Fin 1)"
  using rnd_02 rnd_04 rnd_06 rnd_exact [OF is_double_06_04] t_below_one t_below_one_155 t_below_one_255
  by (simp add: segment3_f_def Let_def number_simps)

lemma segment4_f_06: "segment4_f (rnd 0.6) = (Fin 255, Fin 0, Fin 0)"
  using rnd_02 rnd_06
  by (simp add: segment4_f_def Let_def number_simps)

lemma segment4_f_08: "segment4_f (rnd 0.8) = (Fin 255, Fin 200, Fin 0)"
  using rnd_02 rnd_06 rnd_08 rnd_exact [OF is_double_08_06] t_above_one t_above_one_200
  by (simp add: segment4_f_def Let_def number_simps)

lemma segment5_f_08: "segment5_f (rnd 0.8) = (Fin 255, Fin 200, Fin 0)"
  using rnd_02 rnd_08
  by (simp add: segment5_f_def Let_def number_simps)

lemma segment5_f_1: "segment5_f (Fin 1) = (Fin 255, Fin 254, Fin 254)"
  using rnd_02 rnd_08 rnd_exact [OF is_double_06_04] t_below_one t_below_one_55 t_below_one_255
  by (simp add: segment5_f_def Let_def number_simps)

lemma color_f_1: "color_f (Fin 1) = (Fin 255, Fin 254, Fin 254)"
  using rnd_02 rnd_04 rnd_06 rnd_08
  by (simp add: color_f_def segment5_f_1 less_number_def)

lemma color_f_boundaries:
  "color_f (rnd 0.2) = segment2_f (rnd 0.2)" "color_f (rnd 0.4) = segment3_f (rnd 0.4)"
  "color_f (rnd 0.6) = segment4_f (rnd 0.6)" "color_f (rnd 0.8) = segment5_f (rnd 0.8)"
  using rnd_02 rnd_04 rnd_06 rnd_08
  by (simp_all add: color_f_def less_number_def)

text \<open>The range of each branch.\<close>

lemma channel_iff: "channel a \<longleftrightarrow> (\<exists>n::int. a = Fin (of_int n) \<and> 0 \<le> n \<and> n \<le> 255)"
proof
  assume "channel a"
  then obtain v where v: "a = Fin v" "of_int \<lfloor>v\<rfloor> = v" "0 \<le> v" "v \<le> 255"
    by (cases a) (auto simp: channel_def)
  have "0 \<le> \<lfloor>v\<rfloor>" using v(3) by simp
  moreover have "\<lfloor>v\<rfloor> \<le> 255" using v(4) by (simp add: floor_le_iff)
  moreover have "a = Fin (of_int \<lfloor>v\<rfloor>)" by (simp only: v(1) v(2))
  ultimately show "\<exists>n::int. a = Fin (of_int n) \<and> 0 \<le> n \<and> n \<le> 255"
    by blast
next
  assume "\<exists>n::int. a = Fin (of_int n) \<and> 0 \<le> n \<and> n \<le> 255"
  then show "channel a" by (auto simp: channel_def)
qed

lemma channelI: "0 \<le> n \<Longrightarrow> n \<le> 255 \<Longrightarrow> channel (Fin (of_int n))"
  by (auto simp: channel_iff)

lemma channel_0: "channel (Fin 0)" and channel_255: "channel (Fin 255)"
  by (simp_all add: channel_def)

lemma toUint8Clamped_f_channel: "channel a \<Longrightarrow> Fin (of_int (toUint8Clamped_f a)) = a"
  by (auto simp: channel_iff toUint8Clamped_f_def round_half_even_of_int)

lemma floor_scaled_f:
  assumes "0 \<le> tt" and "0 \<le> c" and "tt * c \<le> of_int C" and "is_double (of_int C)"
  shows "\<exists>n. Math_floor (Fin tt * Fin c) = Fin (of_int n) \<and> 0 \<le> n \<and> n \<le> C"
proof -
  have "0 \<le> tt * c" using assms(1,2) by simp
  then obtain y where y: "rnd (tt * c) = Fin y" "0 \<le> y" "y \<le> of_int C"
    using rnd_between [OF _ assms(3) is_double_0 assms(4)] by blast
  have "0 \<le> \<lfloor>y\<rfloor>" using y(2) by simp
  moreover have "\<lfloor>y\<rfloor> \<le> C" using y(3) by (simp add: floor_le_iff)
  ultimately show ?thesis
    by (intro exI [of _ "\<lfloor>y\<rfloor>"]) (simp add: number_ops y(1))
qed

lemma int_add_f:
  assumes "\<bar>m + n\<bar> < 2 ^ 53"
  shows "Fin (of_int m) + Fin (of_int n) = Fin (of_int (m + n))"
  using rnd_exact [OF is_double_int [OF assms]] by (simp add: number_ops)

lemma int_sub_f:
  assumes "\<bar>m - n\<bar> < 2 ^ 53"
  shows "Fin (of_int m) - Fin (of_int n) = Fin (of_int (m - n))"
  using rnd_exact [OF is_double_int [OF assms]] by (simp add: number_ops)

lemma quotient_f:
  assumes "0 \<le> y" and "0 < d" and "y \<le> c * d" and "is_double c"
  shows "\<exists>tt. Fin y / Fin d = Fin tt \<and> 0 \<le> tt \<and> tt \<le> c"
proof -
  have "0 \<le> y / d" using assms(1,2) by simp
  moreover have "y / d \<le> c" using assms(2,3) by (simp add: field_simps)
  ultimately obtain tt where "rnd (y / d) = Fin tt" "0 \<le> tt" "tt \<le> c"
    using rnd_between [OF _ _ is_double_0 assms(4)] by blast
  then show ?thesis using assms(2) by (simp add: number_ops)
qed

lemma difference_f:
  assumes "lo \<le> x" and "x - lo \<le> w" and "is_double w"
  shows "\<exists>y. Fin x - Fin lo = Fin y \<and> 0 \<le> y \<and> y \<le> w"
proof -
  have "0 \<le> x + - lo" "x + - lo \<le> w" using assms(1,2) by simp_all
  then obtain y where "rnd (x + - lo) = Fin y" "0 \<le> y" "y \<le> w"
    using rnd_between [OF _ _ is_double_0 assms(3)] by blast
  then show ?thesis by (simp add: number_ops)
qed

lemma unit_interval_f:
  assumes "0 \<le> y" and "y \<le> 3602879701896397 / 2 ^ 54"
  shows "\<exists>tt. Fin y / rnd 0.2 = Fin tt \<and> 0 \<le> tt \<and> tt \<le> 1"
  using quotient_f [OF assms(1), of "3602879701896397 / 2 ^ 54" 1] assms(2) rnd_02
  by (simp add: is_double_1)

lemma floor_unit_f:
  assumes "0 \<le> tt" and "tt \<le> 1" and "0 \<le> C" and "C < 2 ^ 53"
  shows "\<exists>n. Math_floor (Fin tt * Fin (of_int C)) = Fin (of_int n) \<and> 0 \<le> n \<and> n \<le> C"
proof (rule floor_scaled_f)
  show "0 \<le> tt" by fact
  show "0 \<le> (of_int C :: real)" using assms(3) by simp
  have "tt * of_int C \<le> 1 * of_int C"
    by (rule mult_right_mono) (use assms in simp_all)
  then show "tt * of_int C \<le> of_int C" by simp
  show "is_double (of_int C)" by (rule is_double_int) (use assms in simp)
qed

lemma segment1_f_range:
  assumes "0 \<le> x" and "x < 3602879701896397 / 2 ^ 54"
  shows "rgb (segment1_f (Fin x))"
proof -
  obtain tt where t: "Fin x / rnd 0.2 = Fin tt" "0 \<le> tt" "tt \<le> 1"
    using unit_interval_f [of x] assms by auto
  obtain n where n: "Math_floor (Fin tt * Fin 160) = Fin (of_int n)" "0 \<le> n" "n \<le> 160"
    using floor_unit_f [OF t(2,3), of 160] by auto
  have "segment1_f (Fin x) = (Fin 0, Fin 0, Fin (of_int n))"
    unfolding segment1_f_def Let_def t(1) n(1) by (rule refl)
  then show ?thesis
    using n(2,3) channelI [of n] by (simp add: rgb_def channel_0 channel_255)
qed

lemma segment2_f_range:
  assumes "3602879701896397 / 2 ^ 54 \<le> x" and "x < 3602879701896397 / 2 ^ 53"
  shows "rgb (segment2_f (Fin x))"
proof -
  obtain y where y: "Fin x - rnd 0.2 = Fin y" "0 \<le> y" "y \<le> 3602879701896397 / 2 ^ 54"
    using difference_f [OF assms(1), of "3602879701896397 / 2 ^ 54"] assms(2) rnd_02 is_double_02
    by auto
  obtain tt where t: "Fin y / rnd 0.2 = Fin tt" "0 \<le> tt" "tt \<le> 1"
    using unit_interval_f [OF y(2,3)] by auto
  obtain n where n: "Math_floor (Fin tt * Fin 100) = Fin (of_int n)" "0 \<le> n" "n \<le> 100"
    using floor_unit_f [OF t(2,3), of 100] by auto
  obtain k where k: "Math_floor (Fin tt * Fin 95) = Fin (of_int k)" "0 \<le> k" "k \<le> 95"
    using floor_unit_f [OF t(2,3), of 95] by auto
  have s: "Fin 160 + Fin (of_int k) = Fin (of_int (160 + k))"
    using int_add_f [of 160 k] k(2,3) by simp
  have "segment2_f (Fin x) = (Fin (of_int n), Fin 0, Fin (of_int (160 + k)))"
    unfolding segment2_f_def Let_def y(1) t(1) n(1) k(1) s by (rule refl)
  then show ?thesis
    using n(2,3) k(2,3) channelI [of n] channelI [of "160 + k"] by (simp add: rgb_def channel_0 channel_255)
qed

lemma segment3_f_range:
  assumes "3602879701896397 / 2 ^ 53 \<le> x" and "x < 5404319552844595 / 2 ^ 53"
  shows "rgb (segment3_f (Fin x))"
proof -
  obtain y where y: "Fin x - rnd 0.4 = Fin y" "0 \<le> y" "y \<le> 3602879701896397 / 2 ^ 54"
    using difference_f [OF assms(1), of "3602879701896397 / 2 ^ 54"] assms(2) rnd_04 is_double_02
    by auto
  obtain tt where t: "Fin y / rnd 0.2 = Fin tt" "0 \<le> tt" "tt \<le> 1"
    using unit_interval_f [OF y(2,3)] by auto
  obtain n where n: "Math_floor (Fin tt * Fin 155) = Fin (of_int n)" "0 \<le> n" "n \<le> 155"
    using floor_unit_f [OF t(2,3), of 155] by auto
  obtain k where k: "Math_floor (Fin tt * Fin 255) = Fin (of_int k)" "0 \<le> k" "k \<le> 255"
    using floor_unit_f [OF t(2,3), of 255] by auto
  have s: "Fin 100 + Fin (of_int n) = Fin (of_int (100 + n))"
    using int_add_f [of 100 n] n(2,3) by simp
  have d: "Fin 255 - Fin (of_int k) = Fin (of_int (255 - k))"
    using int_sub_f [of 255 k] k(2,3) by simp
  have "segment3_f (Fin x) = (Fin (of_int (100 + n)), Fin 0, Fin (of_int (255 - k)))"
    unfolding segment3_f_def Let_def y(1) t(1) n(1) k(1) s d by (rule refl)
  then show ?thesis
    using n(2,3) k(2,3) channelI [of "100 + n"] channelI [of "255 - k"] by (simp add: rgb_def channel_0 channel_255)
qed

lemma segment4_f_range:
  assumes "5404319552844595 / 2 ^ 53 \<le> x" and "x < 3602879701896397 / 2 ^ 52"
  shows "rgb (segment4_f (Fin x))"
proof -
  have q: "is_double (1 / 4)"
    by (rule is_double_eval [of "- 2" _ "2 ^ 52"]) simp_all
  have f: "is_double (5 / 4)"
    by (rule is_double_eval [of 0 _ "5 * 2 ^ 50"]) simp_all
  obtain y where y: "Fin x - rnd 0.6 = Fin y" "0 \<le> y" "y \<le> 1 / 4"
    using difference_f [OF assms(1), of "1 / 4"] assms(2) rnd_06 q by auto
  have "y \<le> 5 / 4 * (3602879701896397 / 2 ^ 54)" using y(3) by simp
  then obtain tt where t: "Fin y / rnd 0.2 = Fin tt" "0 \<le> tt" "tt \<le> 5 / 4"
    using quotient_f [OF y(2), of "3602879701896397 / 2 ^ 54" "5 / 4"] f rnd_02 by auto
  have "tt * 200 \<le> of_int 250" using t(3) by simp
  moreover have "is_double (of_int 250)" by (rule is_double_int) simp
  ultimately obtain n where n: "Math_floor (Fin tt * Fin 200) = Fin (of_int n)" "0 \<le> n" "n \<le> 250"
    using floor_scaled_f [OF t(2), of 200 250] by auto
  have "segment4_f (Fin x) = (Fin 255, Fin (of_int n), Fin 0)"
    unfolding segment4_f_def Let_def y(1) t(1) n(1) by (rule refl)
  then show ?thesis
    using n(2,3) channelI [of n] by (simp add: rgb_def channel_0 channel_255)
qed

lemma segment5_f_range:
  assumes "3602879701896397 / 2 ^ 52 \<le> x" and "x \<le> 1"
  shows "rgb (segment5_f (Fin x))"
proof -
  obtain y where y: "Fin x - rnd 0.8 = Fin y" "0 \<le> y" "y \<le> 3602879701896397 / 2 ^ 54"
    using difference_f [OF assms(1), of "3602879701896397 / 2 ^ 54"] assms(2) rnd_08 is_double_02
    by auto
  obtain tt where t: "Fin y / rnd 0.2 = Fin tt" "0 \<le> tt" "tt \<le> 1"
    using unit_interval_f [OF y(2,3)] by auto
  obtain n where n: "Math_floor (Fin tt * Fin 55) = Fin (of_int n)" "0 \<le> n" "n \<le> 55"
    using floor_unit_f [OF t(2,3), of 55] by auto
  obtain k where k: "Math_floor (Fin tt * Fin 255) = Fin (of_int k)" "0 \<le> k" "k \<le> 255"
    using floor_unit_f [OF t(2,3), of 255] by auto
  have s: "Fin 200 + Fin (of_int n) = Fin (of_int (200 + n))"
    using int_add_f [of 200 n] n(2,3) by simp
  have "segment5_f (Fin x) = (Fin 255, Fin (of_int (200 + n)), Fin (of_int k))"
    unfolding segment5_f_def Let_def y(1) t(1) n(1) k(1) s by (rule refl)
  then show ?thesis
    using n(2,3) k(2,3) channelI [of "200 + n"] channelI [of k] by (simp add: rgb_def channel_0 channel_255)
qed

lemma color_f_range:
  assumes "0 \<le> x" and "x \<le> 1"
  shows "rgb (color_f (Fin x))"
proof -
  have lt: "Fin x < Fin c \<longleftrightarrow> x < c" for c by (simp add: less_number_def)
  consider "x < 3602879701896397 / 2 ^ 54"
    | "3602879701896397 / 2 ^ 54 \<le> x" "x < 3602879701896397 / 2 ^ 53"
    | "3602879701896397 / 2 ^ 53 \<le> x" "x < 5404319552844595 / 2 ^ 53"
    | "5404319552844595 / 2 ^ 53 \<le> x" "x < 3602879701896397 / 2 ^ 52"
    | "3602879701896397 / 2 ^ 52 \<le> x"
    by linarith
  then show ?thesis
  proof cases
    case 1
    then show ?thesis
      using segment1_f_range [OF assms(1)] rnd_02 by (simp add: color_f_def lt)
  next
    case 2
    then show ?thesis
      using segment2_f_range [of x] rnd_02 rnd_04 by (simp add: color_f_def lt)
  next
    case 3
    then show ?thesis
      using segment3_f_range [of x] rnd_02 rnd_04 rnd_06 by (simp add: color_f_def lt)
  next
    case 4
    then show ?thesis
      using segment4_f_range [of x] rnd_02 rnd_04 rnd_06 rnd_08 by (simp add: color_f_def lt)
  next
    case 5
    then show ?thesis
      using segment5_f_range [OF _ assms(2)] rnd_02 rnd_04 rnd_06 rnd_08 by (simp add: color_f_def lt)
  qed
qed

lemma paintIntensity_f_data:
  assumes "rgb (color_f intensity)"
  shows "data (paintIntensity_f intensity gen) (pixelIndex gen * 4 + 3) = 255"
    and "(Fin (of_int (data (paintIntensity_f intensity gen) (pixelIndex gen * 4))),
          Fin (of_int (data (paintIntensity_f intensity gen) (pixelIndex gen * 4 + 1))),
          Fin (of_int (data (paintIntensity_f intensity gen) (pixelIndex gen * 4 + 2))))
         = color_f intensity"
proof -
  obtain r gr b where c: "color_f intensity = (r, gr, b)"
    by (cases "color_f intensity")
  have ch: "channel r" "channel gr" "channel b"
    using assms by (simp_all add: c rgb_def)
  show "data (paintIntensity_f intensity gen) (pixelIndex gen * 4 + 3) = 255"
    by (simp add: paintIntensity_f_def Let_def c toUint8Clamped_f_def
        round_half_even_of_int [of 255, simplified])
  show "(Fin (of_int (data (paintIntensity_f intensity gen) (pixelIndex gen * 4))),
          Fin (of_int (data (paintIntensity_f intensity gen) (pixelIndex gen * 4 + 1))),
          Fin (of_int (data (paintIntensity_f intensity gen) (pixelIndex gen * 4 + 2))))
         = color_f intensity"
    by (simp add: paintIntensity_f_def Let_def c toUint8Clamped_f_channel [OF ch(1)]
        toUint8Clamped_f_channel [OF ch(2)] toUint8Clamped_f_channel [OF ch(3)])
qed

text \<open>
  C10, as the code computes it. For every intensity in \<open>[0, 1]\<close> the colour mapping gives
  \<open>r\<close>, \<open>g\<close>, \<open>b\<close> that are integers within \<open>[0, 255]\<close>; the alpha byte that is stored
  is 255, and the three colour bytes stored are the \<open>r\<close>, \<open>g\<close>, \<open>b\<close> of the mapping,
  unchanged by the clamping store. The formulas of adjacent branches agree at the
  boundaries 0.2, 0.4 and 0.8 (the doubles that these literals denote); at each of the
  four boundaries the mapping takes the branch above.
\<close>

theorem color_mapping_binary64:
  assumes "Fin 0 \<le> intensity" and "intensity \<le> Fin 1"
  shows "rgb (color_f intensity)
       \<and> data (paintIntensity_f intensity gen) (pixelIndex gen * 4 + 3) = 255
       \<and> (Fin (of_int (data (paintIntensity_f intensity gen) (pixelIndex gen * 4))),
          Fin (of_int (data (paintIntensity_f intensity gen) (pixelIndex gen * 4 + 1))),
          Fin (of_int (data (paintIntensity_f intensity gen) (pixelIndex gen * 4 + 2))))
         = color_f intensity
       \<and> segment1_f (rnd 0.2) = segment2_f (rnd 0.2) \<and> color_f (rnd 0.2) = segment2_f (rnd 0.2)
       \<and> segment2_f (rnd 0.4) = segment3_f (rnd 0.4) \<and> color_f (rnd 0.4) = segment3_f (rnd 0.4)
       \<and> segment4_f (rnd 0.8) = segment5_f (rnd 0.8) \<and> color_f (rnd 0.8) = segment5_f (rnd 0.8)
       \<and> color_f (rnd 0.6) = segment4_f (rnd 0.6)"
proof -
  obtain x where x: "intensity = Fin x" "0 \<le> x" "x \<le> 1"
    using assms by (cases intensity) (auto simp: less_eq_number_def)
  have rng: "rgb (color_f intensity)"
    unfolding x(1) by (rule color_f_range [OF x(2,3)])
  show ?thesis
    using rng paintIntensity_f_data [OF rng, of gen] color_f_boundaries
      segment1_f_02 segment2_f_02 segment2_f_04 segment3_f_04 segment4_f_08 segment5_f_08
    by simp
qed

theorem color_mapping_binary64_witness:
  "Fin 0 \<le> Fin 1 \<and> Fin 1 \<le> Fin 1 \<and> color_f (Fin 1) = (Fin 255, Fin 254, Fin 254)
   \<and> rgb (color_f (Fin 1))"
  using color_mapping_binary64 [of "Fin 1"] color_f_1
  by (simp add: less_eq_number_def)

text \<open>
  C10 as stated fails at the boundary 0.6. There \<open>(0.6 - 0.4) / 0.2\<close> is computed as
  \<open>1 - 2^-52\<close>, so the third branch gives \<open>(254, 0, 1)\<close>, and the fourth, which the
  mapping takes at 0.6, gives \<open>(255, 0, 0)\<close>.
\<close>

theorem color_boundary_06_counterexample:
  "Fin 0 \<le> rnd 0.6 \<and> rnd 0.6 \<le> Fin 1
   \<and> segment3_f (rnd 0.6) = (Fin 254, Fin 0, Fin 1)
   \<and> segment4_f (rnd 0.6) = (Fin 255, Fin 0, Fin 0)
   \<and> segment3_f (rnd 0.6) \<noteq> segment4_f (rnd 0.6)"
  using rnd_06 segment3_f_06 segment4_f_06 by (simp add: less_eq_number_def)

subsection \<open>Batches and progress\<close>

lemma totalPixels_pos: "0 < RESOLUTION cfg \<Longrightarrow> 0 < totalPixels cfg"
  by (simp add: totalPixels_def)

lemma percent_mono:
  assumes "0 < totalPixels cfg" and "p \<le> q"
  shows "percent cfg p \<le> percent cfg q"
proof -
  have "(of_int p :: real) / of_int (totalPixels cfg) \<le> of_int q / of_int (totalPixels cfg)"
    using assms by (simp add: divide_right_mono)
  then have "(of_int p / of_int (totalPixels cfg)) * 100
               \<le> (of_int q / of_int (totalPixels cfg)) * (100 :: real)"
    by (rule mult_right_mono) simp
  then have "(of_int p / of_int (totalPixels cfg)) * 100 + 1 / 2
               \<le> (of_int q / of_int (totalPixels cfg)) * 100 + (1 / 2 :: real)"
    by (rule add_right_mono)
  then show ?thesis
    unfolding percent_def Math_round_def by (rule floor_mono)
qed

lemma percent_0: "percent cfg 0 = 0"
  by (simp add: percent_def Math_round_def)

lemma percent_100_iff:
  assumes "0 < totalPixels cfg" and "p \<le> totalPixels cfg"
  shows "percent cfg p = 100 \<longleftrightarrow> 199 * totalPixels cfg \<le> 200 * p"
proof -
  define n :: real where "n = of_int (totalPixels cfg)"
  define x :: real where "x = of_int p"
  have n: "0 < n" and x: "x \<le> n" using assms by (simp_all add: n_def x_def)
  have "percent cfg p = 100 \<longleftrightarrow> 100 \<le> x / n * 100 + 1 / 2 \<and> x / n * 100 + 1 / 2 < 101"
    unfolding percent_def Math_round_def n_def x_def by (simp add: floor_eq_iff)
  also have "\<dots> \<longleftrightarrow> 199 * n \<le> 200 * x"
    using n x by (auto simp: field_simps)
  also have "\<dots> \<longleftrightarrow> 199 * totalPixels cfg \<le> 200 * p"
  proof -
    have "199 * n = of_int (199 * totalPixels cfg)" "200 * x = of_int (200 * p)"
      by (simp_all add: n_def x_def)
    then show ?thesis by (simp only: of_int_le_iff)
  qed
  finally show ?thesis .
qed

lemma percent_total: "0 < totalPixels cfg \<Longrightarrow> percent cfg (totalPixels cfg) = 100"
  by (simp add: percent_100_iff)

lemma isCancelled_paintPixel: "isCancelled (paintPixel cfg gen) = isCancelled gen"
  by (simp add: paintPixel_def Let_def case_prod_beta)

lemma whileBudget_props:
  "pixelIndex gen \<le> pixelIndex (whileBudget cfg now startTime k gen)
   \<and> (pixelIndex gen \<le> totalPixels cfg
        \<longrightarrow> pixelIndex (whileBudget cfg now startTime k gen) \<le> totalPixels cfg)
   \<and> isCancelled (whileBudget cfg now startTime k gen) = isCancelled gen"
proof (induction cfg now startTime k gen rule: whileBudget.induct)
  case (1 cfg now startTime k gen)
  show ?case
  proof (cases "pixelIndex gen < totalPixels cfg \<and> now k - startTime < MAX_TIME_PER_FRAME")
    case True
    have unf: "whileBudget cfg now startTime k gen
                      = whileBudget cfg now startTime (Suc k) (paintPixel cfg gen)"
      by (subst whileBudget.simps) (rule if_P [OF True])
    from "1.IH" [OF True] True show ?thesis
      unfolding unf by (simp add: pixelIndex_paintPixel isCancelled_paintPixel)
  next
    case False
    have "whileBudget cfg now startTime k gen = gen"
      by (subst whileBudget.simps) (rule if_not_P [OF False])
    then show ?thesis by simp
  qed
qed

lemma processBatch_cancelled: "isCancelled gen \<Longrightarrow> processBatch cfg now gen = (gen, [])"
  by (simp add: processBatch_def)

lemma processBatch_done:
  "\<not> isCancelled gen \<Longrightarrow> totalPixels cfg \<le> pixelIndex gen \<Longrightarrow>
     processBatch cfg now gen = (gen, [PutImageData, SetIsProcessing False, RenderDisplay])"
  by (simp add: processBatch_def)

lemma processBatch_working:
  assumes "\<not> isCancelled gen" and "pixelIndex gen < totalPixels cfg"
  shows "processBatch cfg now gen =
     (whileBudget cfg now (now 0) 1 gen,
      [PutImageData, SetProgress (percent cfg (pixelIndex (whileBudget cfg now (now 0) 1 gen))),
       RenderDisplay, RequestedBatch])"
  using assms by (simp add: processBatch_def Let_def percent_def)

lemma runBatches_published:
  assumes "0 < totalPixels cfg"
  shows "sorted (published (snd (runBatches cfg clocks gen)))
       \<and> (\<forall>p \<in> set (published (snd (runBatches cfg clocks gen))). percent cfg (pixelIndex gen) \<le> p)"
proof (induction clocks arbitrary: gen)
  case Nil
  show ?case by simp
next
  case (Cons now clocks)
  consider "isCancelled gen" | "\<not> isCancelled gen" "totalPixels cfg \<le> pixelIndex gen"
    | "\<not> isCancelled gen" "pixelIndex gen < totalPixels cfg"
    by linarith
  then show ?case
  proof cases
    case 1
    then show ?thesis by (simp add: processBatch_cancelled)
  next
    case 2
    then show ?thesis by (simp add: processBatch_done)
  next
    case 3
    define gen' where "gen' = whileBudget cfg now (now 0) 1 gen"
    have step: "pixelIndex gen \<le> pixelIndex gen'"
      unfolding gen'_def using whileBudget_props [of gen cfg now "now 0" 1] by simp
    have run: "snd (runBatches cfg (now # clocks) gen)
                = [PutImageData, SetProgress (percent cfg (pixelIndex gen')), RenderDisplay, RequestedBatch]
                  @ snd (runBatches cfg clocks gen')"
      by (simp add: processBatch_working [OF 3] gen'_def case_prod_beta)
    have pub: "published (snd (runBatches cfg (now # clocks) gen))
                = percent cfg (pixelIndex gen') # published (snd (runBatches cfg clocks gen'))"
      unfolding run by simp
    have le: "percent cfg (pixelIndex gen) \<le> percent cfg (pixelIndex gen')"
      by (rule percent_mono [OF assms step])
    from Cons.IH [of gen'] le show ?thesis
      unfolding pub by auto
  qed
qed

lemma budgetClock_test: "budgetClock c k < MAX_TIME_PER_FRAME \<longleftrightarrow> k \<le> c"
  by (simp add: budgetClock_def MAX_TIME_PER_FRAME_def)

lemma whileBudget_budgetClock:
  assumes "k \<le> Suc c" and "pixelIndex gen + int (Suc c - k) \<le> totalPixels cfg"
  shows "pixelIndex (whileBudget cfg (budgetClock c) 0 k gen) = pixelIndex gen + int (Suc c - k)"
  using assms
proof (induction "Suc c - k" arbitrary: k gen)
  case 0
  then have "\<not> k \<le> c" by simp
  then have "whileBudget cfg (budgetClock c) 0 k gen = gen"
    by (subst whileBudget.simps) (simp add: budgetClock_test)
  with 0 show ?case by simp
next
  case (Suc n)
  then have k: "k \<le> c" and n: "n = Suc c - Suc k" by simp_all
  have room: "pixelIndex gen < totalPixels cfg"
    using Suc.prems(2) Suc.hyps(2) by linarith
  have unf: "whileBudget cfg (budgetClock c) 0 k gen
               = whileBudget cfg (budgetClock c) 0 (Suc k) (paintPixel cfg gen)"
    by (subst whileBudget.simps) (simp add: budgetClock_test k room)
  have "pixelIndex (whileBudget cfg (budgetClock c) 0 (Suc k) (paintPixel cfg gen))
          = pixelIndex (paintPixel cfg gen) + int (Suc c - Suc k)"
  proof (rule Suc.hyps(1) [OF n])
    show "Suc k \<le> Suc c" using k by simp
    show "pixelIndex (paintPixel cfg gen) + int (Suc c - Suc k) \<le> totalPixels cfg"
      using Suc.prems(2) Suc.hyps(2) n by (simp add: pixelIndex_paintPixel)
  qed
  then show ?case
    unfolding unf using Suc.hyps(2) n by (simp add: pixelIndex_paintPixel)
qed

lemma processBatch_budgetClock:
  assumes "\<not> isCancelled gen" and "0 < c" and "pixelIndex gen + int c \<le> totalPixels cfg"
  shows "snd (processBatch cfg (budgetClock c) gen)
           = [PutImageData, SetProgress (percent cfg (pixelIndex gen + int c)), RenderDisplay,
              RequestedBatch]"
    and "pixelIndex (fst (processBatch cfg (budgetClock c) gen)) = pixelIndex gen + int c"
    and "\<not> isCancelled (fst (processBatch cfg (budgetClock c) gen))"
proof -
  have room: "pixelIndex gen < totalPixels cfg" using assms(2,3) by linarith
  have start: "budgetClock c 0 = 0" by (simp add: budgetClock_def)
  have "pixelIndex (whileBudget cfg (budgetClock c) 0 (Suc 0) gen) = pixelIndex gen + int (Suc c - Suc 0)"
    by (rule whileBudget_budgetClock) (use assms(2,3) in simp_all)
  then have painted0: "pixelIndex (whileBudget cfg (budgetClock c) 0 (Suc 0) gen) = pixelIndex gen + int c"
    by simp
  then have painted: "pixelIndex (whileBudget cfg (budgetClock c) 0 1 gen) = pixelIndex gen + int c"
    by simp
  show "snd (processBatch cfg (budgetClock c) gen)
           = [PutImageData, SetProgress (percent cfg (pixelIndex gen + int c)), RenderDisplay,
              RequestedBatch]"
    unfolding processBatch_working [OF assms(1) room] start painted by simp
  show "pixelIndex (fst (processBatch cfg (budgetClock c) gen)) = pixelIndex gen + int c"
    by (simp add: processBatch_working [OF assms(1) room] start painted0)
  show "\<not> isCancelled (fst (processBatch cfg (budgetClock c) gen))"
    unfolding processBatch_working [OF assms(1) room] start
    using assms(1) whileBudget_props [of gen cfg "budgetClock c" 0 1] by simp
qed

lemma runBatches_budgetClock:
  assumes "\<not> isCancelled gen" and "0 < c" and "pixelIndex gen + int n * int c \<le> totalPixels cfg"
  shows "pixelIndex (fst (runBatches cfg (replicate n (budgetClock c)) gen)) = pixelIndex gen + int n * int c
       \<and> \<not> isCancelled (fst (runBatches cfg (replicate n (budgetClock c)) gen))"
  using assms
proof (induction n arbitrary: gen)
  case 0
  then show ?case by simp
next
  case (Suc n)
  define gen' where "gen' = fst (processBatch cfg (budgetClock c) gen)"
  have fits: "pixelIndex gen + int c \<le> totalPixels cfg"
  proof -
    have "0 \<le> int n * int c" by simp
    moreover have "int (Suc n) * int c = int c + int n * int c" by (simp add: algebra_simps)
    ultimately show ?thesis using Suc.prems(3) by linarith
  qed
  note batch = processBatch_budgetClock [OF Suc.prems(1,2) fits]
  have run: "fst (runBatches cfg (replicate (Suc n) (budgetClock c)) gen)
               = fst (runBatches cfg (replicate n (budgetClock c)) gen')"
    using batch(1) by (simp add: case_prod_beta gen'_def)
  have "pixelIndex (fst (runBatches cfg (replicate n (budgetClock c)) gen')) = pixelIndex gen' + int n * int c
       \<and> \<not> isCancelled (fst (runBatches cfg (replicate n (budgetClock c)) gen'))"
  proof (rule Suc.IH)
    show "\<not> isCancelled gen'" unfolding gen'_def by (rule batch(3))
    show "0 < c" by (rule Suc.prems(2))
    show "pixelIndex gen' + int n * int c \<le> totalPixels cfg"
      unfolding gen'_def batch(2) using Suc.prems(3) by (simp add: algebra_simps)
  qed
  then show ?case
    unfolding run by (simp add: gen'_def batch(2) algebra_simps)
qed

text \<open>
  C4, as the code has it. For every run that is not cancelled (the effect, then any
  number of batches under any clocks), the progress percentages published, the initial 0
  included, are non-decreasing. A batch that finds pixels left publishes one percentage;
  it is 100 when the batch has completed all pixels, and it is 100 exactly when the pixels
  done are at least 99.5 percent of all pixels, so that 100 is also published by batches
  that end before the run is complete.
\<close>

theorem progress_published:
  assumes "0 < RESOLUTION cfg"
  shows "useEffect True = Some (initialGenerator, [SetIsProcessing True, SetProgress 0, RequestedBatch])
       \<and> sorted (published ([SetIsProcessing True, SetProgress 0, RequestedBatch]
            @ snd (runBatches cfg clocks initialGenerator)))
       \<and> (\<not> isCancelled gen \<and> 0 \<le> pixelIndex gen \<and> pixelIndex gen < totalPixels cfg \<longrightarrow>
           (\<exists>p. snd (processBatch cfg now gen)
                  = [PutImageData, SetProgress p, RenderDisplay, RequestedBatch]
              \<and> (pixelIndex (fst (processBatch cfg now gen)) = totalPixels cfg \<longrightarrow> p = 100)
              \<and> (p = 100 \<longleftrightarrow>
                   199 * totalPixels cfg \<le> 200 * pixelIndex (fst (processBatch cfg now gen)))))"
proof -
  have total: "0 < totalPixels cfg"
    using assms by (rule totalPixels_pos)
  have start: "pixelIndex initialGenerator = 0"
    by (simp add: initialGenerator_def)
  have "sorted (published (snd (runBatches cfg clocks initialGenerator)))
       \<and> (\<forall>p \<in> set (published (snd (runBatches cfg clocks initialGenerator))).
             percent cfg (pixelIndex initialGenerator) \<le> p)"
    by (rule runBatches_published [OF total])
  then have run: "sorted (published ([SetIsProcessing True, SetProgress 0, RequestedBatch]
            @ snd (runBatches cfg clocks initialGenerator)))"
    by (simp add: start percent_0)
  have batch: "\<exists>p. snd (processBatch cfg now gen)
                  = [PutImageData, SetProgress p, RenderDisplay, RequestedBatch]
              \<and> (pixelIndex (fst (processBatch cfg now gen)) = totalPixels cfg \<longrightarrow> p = 100)
              \<and> (p = 100 \<longleftrightarrow>
                   199 * totalPixels cfg \<le> 200 * pixelIndex (fst (processBatch cfg now gen)))"
    if live: "\<not> isCancelled gen" and left: "pixelIndex gen < totalPixels cfg"
  proof -
    define gen' where "gen' = whileBudget cfg now (now 0) 1 gen"
    have bound: "pixelIndex gen' \<le> totalPixels cfg"
      unfolding gen'_def using whileBudget_props [of gen cfg now "now 0" 1] left by simp
    have pb: "processBatch cfg now gen =
        (gen', [PutImageData, SetProgress (percent cfg (pixelIndex gen')), RenderDisplay,
                RequestedBatch])"
      unfolding gen'_def by (rule processBatch_working [OF live left])
    have iff: "percent cfg (pixelIndex gen') = 100
                 \<longleftrightarrow> 199 * totalPixels cfg \<le> 200 * pixelIndex gen'"
      by (rule percent_100_iff [OF total bound])
    have "pixelIndex gen' = totalPixels cfg \<longrightarrow> percent cfg (pixelIndex gen') = 100"
      using percent_total [OF total] by simp
    with iff show ?thesis
      unfolding pb by simp
  qed
  show ?thesis
    using run batch by (simp add: useEffect_def)
qed

theorem progress_published_witness:
  "0 < RESOLUTION config
   \<and> sorted (published ([SetIsProcessing True, SetProgress 0, RequestedBatch]
        @ snd (runBatches config [budgetClock 20, budgetClock 20] initialGenerator)))
   \<and> (\<not> isCancelled initialGenerator \<and> 0 \<le> pixelIndex initialGenerator
        \<and> pixelIndex initialGenerator < totalPixels config)
   \<and> (\<exists>p. snd (processBatch config (budgetClock 20) initialGenerator)
             = [PutImageData, SetProgress p, RenderDisplay, RequestedBatch])"
proof -
  have res: "0 < RESOLUTION config"
    by (simp add: config_fields)
  have gen: "\<not> isCancelled initialGenerator \<and> 0 \<le> pixelIndex initialGenerator
        \<and> pixelIndex initialGenerator < totalPixels config"
    by (simp add: config_fields initialGenerator_def)
  from progress_published [OF res, of "[budgetClock 20, budgetClock 20]" initialGenerator
      "budgetClock 20"] res gen
  show ?thesis by blast
qed

text \<open>
  C4 as stated fails in the direction from 100 to done. With the constants of the source
  (62500 pixels) and batches of 20 pixels each, the batch after 3109 batches ends at 62200
  pixels done and publishes 100, with 300 pixels still to paint.
\<close>

theorem progress_100_before_done_counterexample:
  "snd (processBatch config (budgetClock 20)
          (fst (runBatches config (replicate 3109 (budgetClock 20)) initialGenerator)))
     = [PutImageData, SetProgress 100, RenderDisplay, RequestedBatch]
   \<and> pixelIndex (fst (processBatch config (budgetClock 20)
          (fst (runBatches config (replicate 3109 (budgetClock 20)) initialGenerator)))) = 62200
   \<and> totalPixels config = 62500"
proof -
  define gen where "gen = fst (runBatches config (replicate 3109 (budgetClock 20)) initialGenerator)"
  have init: "\<not> isCancelled initialGenerator" "pixelIndex initialGenerator = 0"
    by (simp_all add: initialGenerator_def)
  have "pixelIndex gen = pixelIndex initialGenerator + int 3109 * int 20 \<and> \<not> isCancelled gen"
    unfolding gen_def by (rule runBatches_budgetClock) (simp_all add: init config_fields)
  then have gen: "pixelIndex gen = 62180" "\<not> isCancelled gen"
    by (simp_all add: init)
  have fits: "pixelIndex gen + int 20 \<le> totalPixels config"
    by (simp add: gen config_fields)
  have p: "percent config 62200 = 100"
    by (simp add: percent_def Math_round_def config_fields)
  show ?thesis
    using processBatch_budgetClock(1,2) [OF gen(2) _ fits]
    by (simp add: gen gen_def [symmetric] p config_fields)
qed

end
